theory Spec2Isabelle
  imports Complex_Main
begin

section \<open>Stable ID generator (createIdGenerator)\<close>

text \<open>
  \<^verbatim>\<open>createIdGenerator\<close> appears twice in the sources, with the same body: in
  PageCollector.ts and in the WebSocket collector. The closure variable \<^verbatim>\<open>i\<close> is the
  only state of a generator; one call maps the old value of \<^verbatim>\<open>i\<close> to the identifier
  returned and the new value of \<^verbatim>\<open>i\<close>. All values stay below \<open>2 ^ 53\<close>, where
  JavaScript numbers are exact integers, so \<open>int\<close> models them.
\<close>

definition MAX_SAFE_INTEGER :: int where
  "MAX_SAFE_INTEGER = 9007199254740991"

definition createIdGenerator :: int where
  "createIdGenerator = 1"

definition idGenerator :: "int \<Rightarrow> int \<times> int" where
  "idGenerator i = (let i1 = (if i = MAX_SAFE_INTEGER then 0 else i) in (i1, i1 + 1))"

text \<open>The state of a generator after \<open>n\<close> calls, and the identifier the next call returns.\<close>

definition idGenerator_state :: "nat \<Rightarrow> int" where
  "idGenerator_state n = ((\<lambda>i. snd (idGenerator i)) ^^ n) createIdGenerator"

definition idGenerator_nth :: "nat \<Rightarrow> int" where
  "idGenerator_nth n = fst (idGenerator (idGenerator_state n))"

section \<open>Generic resource collector (PageCollector)\<close>

type_synonym page = nat
type_synonym frame = nat

datatype error =
    TypeError
  | NoRequestsFound
  | RequestNotFound
  | NoWebSocketConnectionsFound
  | WebSocketConnectionNotFound

text \<open>
  \<^verbatim>\<open>WithSymbolId<T>\<close>: a collected object together with the property
  \<^verbatim>\<open>stableIdSymbol\<close> the collector writes on it. Every page event delivers its own
  object, so a collected object is modelled by its value and its position in the storage.
\<close>

record 'a withSymbolId =
  resource :: 'a
  stableIdSymbol :: "int option"

text \<open>
  The fields of a \<^verbatim>\<open>PageCollector\<close>. \<open>storage\<close> is the WeakMap from a page to its
  list of navigations, newest first. \<open>listeners\<close> holds, for each page whose listeners are
  attached (\<^verbatim>\<open>page.on\<close>), the counter of the ID generator that the listener closure
  captured; \<^verbatim>\<open>page.off\<close> in \<^verbatim>\<open>cleanupPageDestroyed\<close> detaches them.
\<close>

record 'a pageCollector =
  storage :: "page \<rightharpoonup> 'a withSymbolId list list"
  listeners :: "page \<rightharpoonup> int"

definition maxNavigationSaved :: nat where
  "maxNavigationSaved = 3"

definition newPageCollector :: "'a pageCollector" where
  "newPageCollector = \<lparr>storage = Map.empty, listeners = Map.empty\<rparr>"

definition initializePage ::
  "page \<Rightarrow> ('a, 'm) pageCollector_scheme \<Rightarrow> ('a, 'm) pageCollector_scheme" where
  "initializePage page c =
     (if storage c page \<noteq> None then c
      else c\<lparr>storage := (storage c)(page \<mapsto> [[]]),
             listeners := (listeners c)(page \<mapsto> createIdGenerator)\<rparr>)"

text \<open>
  The callback given to the listeners initializer: tag the value with the next ID and
  push it on the newest navigation. \<^verbatim>\<open>this.storage.get(page) ?? [[]]\<close> pushes to a
  throw-away array when the page has no storage; \<^verbatim>\<open>navigations[0].push\<close> on an empty
  list of navigations is a TypeError.
\<close>

definition collect ::
  "page \<Rightarrow> 'a \<Rightarrow> ('a, 'm) pageCollector_scheme \<Rightarrow> error + ('a, 'm) pageCollector_scheme" where
  "collect page v c =
     (case listeners c page of
        None \<Rightarrow> Inr c
      | Some i \<Rightarrow>
          (let (newId, i') = idGenerator i;
               withId = \<lparr>resource = v, stableIdSymbol = Some newId\<rparr>;
               c' = c\<lparr>listeners := (listeners c)(page \<mapsto> i')\<rparr>
           in case storage c page of
                None \<Rightarrow> Inr c'
              | Some [] \<Rightarrow> Inl TypeError
              | Some (current # preserved) \<Rightarrow>
                  Inr (c'\<lparr>storage := (storage c)(page \<mapsto> (current @ [withId]) # preserved)\<rparr>)))"

text \<open>\<^verbatim>\<open>navigations.unshift([]); navigations.splice(this.#maxNavigationSaved)\<close>\<close>

definition splitAfterNavigation ::
  "page \<Rightarrow> ('a, 'm) pageCollector_scheme \<Rightarrow> ('a, 'm) pageCollector_scheme" where
  "splitAfterNavigation page c =
     (case storage c page of
        None \<Rightarrow> c
      | Some navigations \<Rightarrow>
          c\<lparr>storage := (storage c)(page \<mapsto> take maxNavigationSaved ([] # navigations))\<rparr>)"

definition cleanupPageDestroyed ::
  "page \<Rightarrow> ('a, 'm) pageCollector_scheme \<Rightarrow> ('a, 'm) pageCollector_scheme" where
  "cleanupPageDestroyed page c =
     c\<lparr>listeners := (listeners c)(page := None), storage := (storage c)(page := None)\<rparr>"

text \<open>
  The loop of \<^verbatim>\<open>getData\<close>: \<^verbatim>\<open>for (index = maxNavigationSaved; index >= 0; index--)\<close>,
  appending \<^verbatim>\<open>navigations[index]\<close> when it exists.
\<close>

fun getData_loop :: "'x list list \<Rightarrow> nat \<Rightarrow> 'x list \<Rightarrow> 'x list" where
  "getData_loop navigations 0 data =
     (if 0 < length navigations then data @ navigations ! 0 else data)"
| "getData_loop navigations (Suc index) data =
     getData_loop navigations index
       (if Suc index < length navigations then data @ navigations ! Suc index else data)"

text \<open>
  \<^verbatim>\<open>getData\<close>; the result \<open>None\<close> stands for JavaScript's \<^verbatim>\<open>undefined\<close>, which
  \<^verbatim>\<open>navigations[0]\<close> is on an empty list of navigations.
\<close>

definition getData ::
  "('a, 'm) pageCollector_scheme \<Rightarrow> page \<Rightarrow> bool \<Rightarrow> 'a withSymbolId list option" where
  "getData c page includePreservedData =
     (case storage c page of
        None \<Rightarrow> Some []
      | Some navigations \<Rightarrow>
          if \<not> includePreservedData
          then (case navigations of [] \<Rightarrow> None | current # _ \<Rightarrow> Some current)
          else Some (getData_loop navigations maxNavigationSaved []))"

definition getIdForResource :: "'a withSymbolId \<Rightarrow> int" where
  "getIdForResource r = (case stableIdSymbol r of Some i \<Rightarrow> i | None \<Rightarrow> - 1)"

fun find_navigations :: "('x \<Rightarrow> bool) \<Rightarrow> 'x list list \<Rightarrow> 'x option" where
  "find_navigations flt [] = None"
| "find_navigations flt (navigation # navigations) =
     (case List.find flt navigation of
        Some item \<Rightarrow> Some item
      | None \<Rightarrow> find_navigations flt navigations)"

definition find_resource ::
  "('a, 'm) pageCollector_scheme \<Rightarrow> page \<Rightarrow> ('a withSymbolId \<Rightarrow> bool) \<Rightarrow> 'a withSymbolId option" where
  "find_resource c page flt =
     (case storage c page of
        None \<Rightarrow> None
      | Some navigations \<Rightarrow> find_navigations flt navigations)"

definition getById ::
  "('a, 'm) pageCollector_scheme \<Rightarrow> page \<Rightarrow> int \<Rightarrow> error + 'a withSymbolId" where
  "getById c page stableId =
     (case storage c page of
        None \<Rightarrow> Inl NoRequestsFound
      | Some navigations \<Rightarrow>
          (case find_resource c page (\<lambda>item. stableIdSymbol item = Some stableId) of
             Some item \<Rightarrow> Inr item
           | None \<Rightarrow> Inl RequestNotFound))"


text \<open>
  The events a \<^verbatim>\<open>PageCollector\<close> reacts to: the browser's \<^verbatim>\<open>targetcreated\<close> and
  \<^verbatim>\<open>targetdestroyed\<close> (for a target that resolves to a page), a page event that the
  listeners pass to the callback, and \<^verbatim>\<open>framenavigated\<close>. The main frame of each page
  (\<^verbatim>\<open>page.mainFrame()\<close>) is a parameter. A page event reaches a listener only while
  the listeners are attached.
\<close>

datatype 'a pageEvent =
    TargetCreated page
  | PageEvent page 'a
  | FrameNavigated page frame
  | TargetDestroyed page

fun step ::
  "(page \<Rightarrow> frame) \<Rightarrow> 'a pageEvent \<Rightarrow> ('a, 'm) pageCollector_scheme
     \<Rightarrow> error + ('a, 'm) pageCollector_scheme" where
  "step mainFrame (TargetCreated page) c = Inr (initializePage page c)"
| "step mainFrame (PageEvent page v) c = collect page v c"
| "step mainFrame (FrameNavigated page frame) c =
     Inr (if listeners c page = None then c
          else if frame \<noteq> mainFrame page then c
          else splitAfterNavigation page c)"
| "step mainFrame (TargetDestroyed page) c = Inr (cleanupPageDestroyed page c)"

fun exec ::
  "(page \<Rightarrow> frame) \<Rightarrow> 'a pageEvent list \<Rightarrow> ('a, 'm) pageCollector_scheme
     \<Rightarrow> error + ('a, 'm) pageCollector_scheme" where
  "exec mainFrame [] c = Inr c"
| "exec mainFrame (e # es) c =
     (case step mainFrame e c of Inl err \<Rightarrow> Inl err | Inr c' \<Rightarrow> exec mainFrame es c')"

section \<open>Network specialization (NetworkCollector)\<close>

text \<open>
  What the collector reads of a Puppeteer \<^verbatim>\<open>HTTPRequest\<close>: its protocol request id,
  \<^verbatim>\<open>frame()\<close> (which may be null) and \<^verbatim>\<open>isNavigationRequest()\<close>.
\<close>

record httpRequest =
  req_id :: string
  req_frame :: "frame option"
  req_isNavigationRequest :: bool

text \<open>\<^verbatim>\<open>RequestInitiator\<close>, without the call stack, which the collector never reads.\<close>

record requestInitiator =
  initiator_type :: string
  initiator_url :: "string option"
  initiator_lineNumber :: "int option"
  initiator_columnNumber :: "int option"

record networkCollector = "httpRequest pageCollector" +
  initiators :: "page \<rightharpoonup> (string \<rightharpoonup> requestInitiator)"

definition newNetworkCollector :: networkCollector where
  "newNetworkCollector = \<lparr>storage = Map.empty, listeners = Map.empty, initiators = Map.empty\<rparr>"

text \<open>
  \<^verbatim>\<open>Array.prototype.findLastIndex\<close>: scan from the last index down to 0, return the first
  index whose element satisfies the predicate, and \<open>-1\<close> when there is none.
\<close>

fun findLastIndex_from :: "('x \<Rightarrow> bool) \<Rightarrow> 'x list \<Rightarrow> nat \<Rightarrow> int" where
  "findLastIndex_from P xs 0 = - 1"
| "findLastIndex_from P xs (Suc k) =
     (if P (xs ! k) then int k else findLastIndex_from P xs k)"

definition findLastIndex :: "('x \<Rightarrow> bool) \<Rightarrow> 'x list \<Rightarrow> int" where
  "findLastIndex P xs = findLastIndex_from P xs (length xs)"

definition setupInitiatorCollection :: "page \<Rightarrow> networkCollector \<Rightarrow> networkCollector" where
  "setupInitiatorCollection page c =
     (if initiators c page \<noteq> None then c
      else c\<lparr>initiators := (initiators c)(page \<mapsto> Map.empty)\<rparr>)"

definition network_addPage :: "page \<Rightarrow> networkCollector \<Rightarrow> networkCollector" where
  "network_addPage page c = setupInitiatorCollection page (initializePage page c)"

text \<open>The CDP listener \<^verbatim>\<open>onRequestWillBeSent\<close>, attached while the page has an initiator map.\<close>

definition onRequestWillBeSent ::
  "page \<Rightarrow> string \<Rightarrow> requestInitiator option \<Rightarrow> networkCollector \<Rightarrow> networkCollector" where
  "onRequestWillBeSent page requestId initiator c =
     (case initiators c page of
        None \<Rightarrow> c
      | Some initiatorMap \<Rightarrow>
          (case initiator of
             None \<Rightarrow> c
           | Some ini \<Rightarrow> c\<lparr>initiators := (initiators c)(page \<mapsto> initiatorMap(requestId \<mapsto> ini))\<rparr>))"

definition network_cleanupPageDestroyed :: "page \<Rightarrow> networkCollector \<Rightarrow> networkCollector" where
  "network_cleanupPageDestroyed page c =
     (cleanupPageDestroyed page c)\<lparr>initiators := (initiators c)(page := None)\<rparr>"

definition getInitiatorByRequestId ::
  "networkCollector \<Rightarrow> page \<Rightarrow> string \<Rightarrow> requestInitiator option" where
  "getInitiatorByRequestId c page requestId =
     (case initiators c page of None \<Rightarrow> None | Some initiatorMap \<Rightarrow> initiatorMap requestId)"

definition getInitiator ::
  "networkCollector \<Rightarrow> page \<Rightarrow> httpRequest withSymbolId \<Rightarrow> requestInitiator option" where
  "getInitiator c page request = getInitiatorByRequestId c page (req_id (resource request))"

text \<open>
  The predicate of the cut: \<^verbatim>\<open>request.frame() === page.mainFrame() ?
  request.isNavigationRequest() : false\<close>.
\<close>

definition isMainFrameNavigation :: "frame \<Rightarrow> httpRequest withSymbolId \<Rightarrow> bool" where
  "isMainFrameNavigation mainFrameOfPage request =
     (if req_frame (resource request) = Some mainFrameOfPage
      then req_isNavigationRequest (resource request) else False)"

text \<open>
  The override of \<^verbatim>\<open>splitAfterNavigation\<close>. With \<^verbatim>\<open>this.storage.get(page) ?? []\<close> a
  page without storage gives an empty list of navigations, \<^verbatim>\<open>navigations[0]\<close> is then
  undefined and \<^verbatim>\<open>requests.findLastIndex\<close> raises a TypeError.
  \<^verbatim>\<open>requests.splice(lastRequestIdx)\<close> removes the items from that index on from the
  current navigation and returns them; \<^verbatim>\<open>unshift\<close> puts them in front.
\<close>

definition network_splitAfterNavigation ::
  "(page \<Rightarrow> frame) \<Rightarrow> page \<Rightarrow> networkCollector \<Rightarrow> error + networkCollector" where
  "network_splitAfterNavigation mainFrame page c =
     (let navigations = (case storage c page of None \<Rightarrow> [] | Some ns \<Rightarrow> ns)
      in case navigations of
           [] \<Rightarrow> Inl TypeError
         | requests # preserved \<Rightarrow>
             (let lastRequestIdx = findLastIndex (isMainFrameNavigation (mainFrame page)) requests;
                  navigations' =
                    (if lastRequestIdx \<noteq> - 1
                     then drop (nat lastRequestIdx) requests
                            # take (nat lastRequestIdx) requests # preserved
                     else [] # requests # preserved)
              in Inr (c\<lparr>storage := (storage c)(page \<mapsto> navigations'),
                        initiators :=
                          (case initiators c page of
                             None \<Rightarrow> initiators c
                           | Some initiatorMap \<Rightarrow> (initiators c)(page \<mapsto> Map.empty))\<rparr>)))"

datatype networkEvent =
    NetworkTargetCreated page
  | Request page httpRequest
  | NetworkFrameNavigated page frame
  | RequestWillBeSent page string "requestInitiator option"
  | NetworkTargetDestroyed page

fun network_step ::
  "(page \<Rightarrow> frame) \<Rightarrow> networkEvent \<Rightarrow> networkCollector \<Rightarrow> error + networkCollector" where
  "network_step mainFrame (NetworkTargetCreated page) c = Inr (network_addPage page c)"
| "network_step mainFrame (Request page req) c = collect page req c"
| "network_step mainFrame (NetworkFrameNavigated page frame) c =
     (if listeners c page = None then Inr c
      else if frame \<noteq> mainFrame page then Inr c
      else network_splitAfterNavigation mainFrame page c)"
| "network_step mainFrame (RequestWillBeSent page requestId initiator) c =
     Inr (onRequestWillBeSent page requestId initiator c)"
| "network_step mainFrame (NetworkTargetDestroyed page) c =
     Inr (network_cleanupPageDestroyed page c)"

fun network_exec ::
  "(page \<Rightarrow> frame) \<Rightarrow> networkEvent list \<Rightarrow> networkCollector \<Rightarrow> error + networkCollector" where
  "network_exec mainFrame [] c = Inr c"
| "network_exec mainFrame (e # es) c =
     (case network_step mainFrame e c of
        Inl err \<Rightarrow> Inl err
      | Inr c' \<Rightarrow> network_exec mainFrame es c')"


section \<open>WebSocket specialization (WebSocketCollector)\<close>

datatype webSocketStatus = Connecting | Open | Closed

datatype webSocketDirection = Sent | Received

text \<open>
  A payload is a JavaScript string: a list of UTF-16 code units, which
  \<^verbatim>\<open>charCodeAt\<close> reads and \<^verbatim>\<open>length\<close> counts. Timestamps are JavaScript numbers,
  modelled as reals (rounding of doubles is not modelled).
\<close>

type_synonym jsString = "nat list"

record webSocketConnection =
  requestId :: string
  url :: string
  initiator :: "requestInitiator option"
  status :: webSocketStatus
  createdAt :: real
  closedAt :: "real option"

record webSocketFrame =
  frame_requestId :: string
  direction :: webSocketDirection
  timestamp :: real
  opcode :: int
  payloadData :: jsString

record webSocketData =
  connection :: webSocketConnection
  frames :: "webSocketFrame list"
  wsStableIdSymbol :: "int option"

text \<open>
  The collector shares mutable objects: a \<^verbatim>\<open>WebSocketData\<close> object is referenced
  from the storage and from a connection map, and a connection \<^verbatim>\<open>Map\<close> is referenced from
  the WeakMap \<^verbatim>\<open>#connectionMap\<close> and from the listener closures. So the model has a
  store: \<open>objects\<close>, \<open>mapObjects\<close> and \<open>generators\<close> hold the allocated
  objects, and a reference is the index of its object (allocation appends; a reference to
  an allocated object is always in range).

  The closures made by \<^verbatim>\<open>#setupCdpListeners\<close> capture
  \<^verbatim>\<open>this.#connectionMap.get(page)\<close> and \<^verbatim>\<open>this.#idGenerators.get(page)\<close> once, when the
  page is added: \<open>wsListeners\<close> records the two captured references. The
  \<^verbatim>\<open>framenavigated\<close> listener is attached with \<^verbatim>\<open>page.on\<close> and never detached;
  \<open>frameNavigatedListeners\<close> counts how many a page has.
\<close>

type_synonym objRef = nat
type_synonym mapRef = nat
type_synonym genRef = nat

record wsListeners =
  captured_connectionMap :: mapRef
  captured_idGenerator :: genRef

record webSocketCollector =
  ws_storage :: "page \<rightharpoonup> objRef list list"
  connectionMap :: "page \<rightharpoonup> mapRef"
  idGenerators :: "page \<rightharpoonup> genRef"
  cdpListeners :: "page \<rightharpoonup> wsListeners"
  frameNavigatedListeners :: "page \<Rightarrow> nat"
  objects :: "webSocketData list"
  mapObjects :: "(string \<rightharpoonup> objRef) list"
  generators :: "int list"

definition newWebSocketCollector :: webSocketCollector where
  "newWebSocketCollector =
     \<lparr>ws_storage = Map.empty, connectionMap = Map.empty, idGenerators = Map.empty,
      cdpListeners = Map.empty, frameNavigatedListeners = (\<lambda>_. 0),
      objects = [], mapObjects = [], generators = []\<rparr>"

text \<open>\<^verbatim>\<open>addPage\<close>, with \<^verbatim>\<open>#setupCdpListeners\<close> inlined.\<close>

definition ws_addPage :: "page \<Rightarrow> webSocketCollector \<Rightarrow> webSocketCollector" where
  "ws_addPage page c =
     (if ws_storage c page \<noteq> None then c
      else
        (let g = length (generators c); m = length (mapObjects c)
         in c\<lparr>generators := generators c @ [createIdGenerator],
               idGenerators := (idGenerators c)(page \<mapsto> g),
               ws_storage := (ws_storage c)(page \<mapsto> [[]]),
               mapObjects := mapObjects c @ [Map.empty],
               connectionMap := (connectionMap c)(page \<mapsto> m),
               cdpListeners := (cdpListeners c)(page \<mapsto>
                  \<lparr>captured_connectionMap = m, captured_idGenerator = g\<rparr>),
               frameNavigatedListeners :=
                 (frameNavigatedListeners c)(page := Suc (frameNavigatedListeners c page))\<rparr>))"

text \<open>
  \<^verbatim>\<open>onCreated\<close>; \<open>now\<close> is the value of \<^verbatim>\<open>Date.now()\<close>. The new object is registered
  in the captured connection map, pushed on the newest navigation when the page has
  storage (\<^verbatim>\<open>navigations[0].push\<close> on an empty list is a TypeError), then marked open.
\<close>

definition onCreated ::
  "page \<Rightarrow> string \<Rightarrow> string \<Rightarrow> requestInitiator option \<Rightarrow> real \<Rightarrow> webSocketCollector
     \<Rightarrow> error + webSocketCollector" where
  "onCreated page evRequestId evUrl evInitiator now c =
     (case cdpListeners c page of
        None \<Rightarrow> Inr c
      | Some l \<Rightarrow>
          (let g = captured_idGenerator l; m = captured_connectionMap l;
               (newId, i') = idGenerator (generators c ! g);
               wsData = \<lparr>connection = \<lparr>requestId = evRequestId, url = evUrl,
                           initiator = evInitiator, status = Connecting,
                           createdAt = now, closedAt = None\<rparr>,
                         frames = [], wsStableIdSymbol = Some newId\<rparr>;
               r = length (objects c);
               c1 = c\<lparr>generators := (generators c)[g := i'],
                      objects := objects c @ [wsData],
                      mapObjects := (mapObjects c)[m := (mapObjects c ! m)(evRequestId \<mapsto> r)]\<rparr>;
               opened = (\<lambda>s. s\<lparr>objects := (objects s)[r :=
                           (objects s ! r)\<lparr>connection :=
                              (connection (objects s ! r))\<lparr>status := Open\<rparr>\<rparr>]\<rparr>)
           in case ws_storage c page of
                None \<Rightarrow> Inr (opened c1)
              | Some [] \<Rightarrow> Inl TypeError
              | Some (current # preserved) \<Rightarrow>
                  Inr (opened (c1\<lparr>ws_storage :=
                         (ws_storage c)(page \<mapsto> (current @ [r]) # preserved)\<rparr>))))"

text \<open>
  \<^verbatim>\<open>onFrameSent\<close> and \<^verbatim>\<open>onFrameReceived\<close> differ in the direction only: look the
  connection up in the captured map, return when it is absent, else push a frame on the
  object found.
\<close>

definition onFrame ::
  "webSocketDirection \<Rightarrow> page \<Rightarrow> string \<Rightarrow> real \<Rightarrow> int \<Rightarrow> jsString \<Rightarrow> webSocketCollector
     \<Rightarrow> webSocketCollector" where
  "onFrame dir page evRequestId evTimestamp evOpcode evPayloadData c =
     (case cdpListeners c page of
        None \<Rightarrow> c
      | Some l \<Rightarrow>
          (case (mapObjects c ! captured_connectionMap l) evRequestId of
             None \<Rightarrow> c
           | Some r \<Rightarrow>
               c\<lparr>objects := (objects c)[r := (objects c ! r)\<lparr>frames := frames (objects c ! r) @
                    [\<lparr>frame_requestId = evRequestId, direction = dir,
                      timestamp = evTimestamp * 1000, opcode = evOpcode,
                      payloadData = evPayloadData\<rparr>]\<rparr>]\<rparr>))"

definition onFrameSent ::
  "page \<Rightarrow> string \<Rightarrow> real \<Rightarrow> int \<Rightarrow> jsString \<Rightarrow> webSocketCollector \<Rightarrow> webSocketCollector" where
  "onFrameSent = onFrame Sent"

definition onFrameReceived ::
  "page \<Rightarrow> string \<Rightarrow> real \<Rightarrow> int \<Rightarrow> jsString \<Rightarrow> webSocketCollector \<Rightarrow> webSocketCollector" where
  "onFrameReceived = onFrame Received"

definition onClosed :: "page \<Rightarrow> string \<Rightarrow> real \<Rightarrow> webSocketCollector \<Rightarrow> webSocketCollector" where
  "onClosed page evRequestId evTimestamp c =
     (case cdpListeners c page of
        None \<Rightarrow> c
      | Some l \<Rightarrow>
          (case (mapObjects c ! captured_connectionMap l) evRequestId of
             None \<Rightarrow> c
           | Some r \<Rightarrow>
               c\<lparr>objects := (objects c)[r := (objects c ! r)\<lparr>connection :=
                    (connection (objects c ! r))\<lparr>status := Closed,
                       closedAt := Some (evTimestamp * 1000)\<rparr>\<rparr>]\<rparr>))"

text \<open>
  \<^verbatim>\<open>#splitAfterNavigation\<close>: rotate as the generic collector does, then
  \<^verbatim>\<open>this.#connectionMap.set(page, new Map())\<close>, which allocates a new map and stores its
  reference in the WeakMap.
\<close>

definition ws_splitAfterNavigation :: "page \<Rightarrow> webSocketCollector \<Rightarrow> webSocketCollector" where
  "ws_splitAfterNavigation page c =
     (case ws_storage c page of
        None \<Rightarrow> c
      | Some navigations \<Rightarrow>
          c\<lparr>ws_storage := (ws_storage c)(page \<mapsto> take maxNavigationSaved ([] # navigations)),
            mapObjects := mapObjects c @ [Map.empty],
            connectionMap := (connectionMap c)(page \<mapsto> length (mapObjects c))\<rparr>)"

definition ws_cleanupPage :: "page \<Rightarrow> webSocketCollector \<Rightarrow> webSocketCollector" where
  "ws_cleanupPage page c =
     c\<lparr>cdpListeners := (cdpListeners c)(page := None),
       ws_storage := (ws_storage c)(page := None),
       connectionMap := (connectionMap c)(page := None),
       idGenerators := (idGenerators c)(page := None)\<rparr>"

definition ws_getData :: "webSocketCollector \<Rightarrow> page \<Rightarrow> bool \<Rightarrow> objRef list" where
  "ws_getData c page includePreservedData =
     (case ws_storage c page of
        None \<Rightarrow> []
      | Some navigations \<Rightarrow>
          if \<not> includePreservedData
          then (case navigations of [] \<Rightarrow> [] | current # _ \<Rightarrow> current)
          else getData_loop navigations maxNavigationSaved [])"

definition ws_getIdForResource :: "webSocketCollector \<Rightarrow> objRef \<Rightarrow> int" where
  "ws_getIdForResource c r =
     (case wsStableIdSymbol (objects c ! r) of Some i \<Rightarrow> i | None \<Rightarrow> - 1)"

definition ws_find ::
  "webSocketCollector \<Rightarrow> page \<Rightarrow> (webSocketData \<Rightarrow> bool) \<Rightarrow> objRef option" where
  "ws_find c page flt =
     (case ws_storage c page of
        None \<Rightarrow> None
      | Some navigations \<Rightarrow> find_navigations (\<lambda>r. flt (objects c ! r)) navigations)"

definition ws_getById :: "webSocketCollector \<Rightarrow> page \<Rightarrow> int \<Rightarrow> error + objRef" where
  "ws_getById c page stableId =
     (case ws_storage c page of
        None \<Rightarrow> Inl NoWebSocketConnectionsFound
      | Some navigations \<Rightarrow>
          (case find_navigations (\<lambda>r. wsStableIdSymbol (objects c ! r) = Some stableId) navigations of
             Some r \<Rightarrow> Inr r
           | None \<Rightarrow> Inl WebSocketConnectionNotFound))"

text \<open>
  The events the collector reacts to. The four CDP events reach a handler only while the
  page's CDP listeners are attached; a main-frame \<^verbatim>\<open>framenavigated\<close> runs
  \<^verbatim>\<open>#splitAfterNavigation\<close> once for each listener attached to the page.
\<close>

datatype wsEvent =
    WsTargetCreated page
  | WebSocketCreated page string string "requestInitiator option" real
  | WebSocketFrameSent page string real int jsString
  | WebSocketFrameReceived page string real int jsString
  | WebSocketClosed page string real
  | WsFrameNavigated page frame
  | WsTargetDestroyed page

fun ws_step ::
  "(page \<Rightarrow> frame) \<Rightarrow> wsEvent \<Rightarrow> webSocketCollector \<Rightarrow> error + webSocketCollector" where
  "ws_step mainFrame (WsTargetCreated page) c = Inr (ws_addPage page c)"
| "ws_step mainFrame (WebSocketCreated page rid u ini now) c = onCreated page rid u ini now c"
| "ws_step mainFrame (WebSocketFrameSent page rid ts opc payload) c =
     Inr (onFrameSent page rid ts opc payload c)"
| "ws_step mainFrame (WebSocketFrameReceived page rid ts opc payload) c =
     Inr (onFrameReceived page rid ts opc payload c)"
| "ws_step mainFrame (WebSocketClosed page rid ts) c = Inr (onClosed page rid ts c)"
| "ws_step mainFrame (WsFrameNavigated page frame) c =
     Inr (if frame = mainFrame page
          then ((ws_splitAfterNavigation page) ^^ (frameNavigatedListeners c page)) c
          else c)"
| "ws_step mainFrame (WsTargetDestroyed page) c = Inr (ws_cleanupPage page c)"

fun ws_exec ::
  "(page \<Rightarrow> frame) \<Rightarrow> wsEvent list \<Rightarrow> webSocketCollector \<Rightarrow> error + webSocketCollector" where
  "ws_exec mainFrame [] c = Inr c"
| "ws_exec mainFrame (e # es) c =
     (case ws_step mainFrame e c of Inl err \<Rightarrow> Inl err | Inr c' \<Rightarrow> ws_exec mainFrame es c')"


section \<open>Traffic fingerprint engine (analyzeWebSocketFramesV2)\<close>

subsection \<open>The platform function atob\<close>

text \<open>
  \<^verbatim>\<open>atob\<close> is a function of the JavaScript platform, not of the repository. It is
  modelled after its definition (forgiving-base64 decode): remove ASCII whitespace; when
  the length is a multiple of 4, remove one or two trailing \<^verbatim>\<open>=\<close>; fail when the length
  leaves remainder 1 or a character is outside the base64 alphabet; decode six bits per
  character, dropping the incomplete last byte. \<open>None\<close> stands for the exception.
\<close>

definition isAsciiWhitespace :: "nat \<Rightarrow> bool" where
  "isAsciiWhitespace c = (c = 9 \<or> c = 10 \<or> c = 12 \<or> c = 13 \<or> c = 32)"

text \<open>The character class \<^verbatim>\<open>[A-Za-z0-9+/]\<close>, on code units.\<close>

definition isBase64Char :: "nat \<Rightarrow> bool" where
  "isBase64Char c =
     ((65 \<le> c \<and> c \<le> 90) \<or> (97 \<le> c \<and> c \<le> 122) \<or> (48 \<le> c \<and> c \<le> 57) \<or> c = 43 \<or> c = 47)"

definition base64Sextet :: "nat \<Rightarrow> nat" where
  "base64Sextet c =
     (if 65 \<le> c \<and> c \<le> 90 then c - 65
      else if 97 \<le> c \<and> c \<le> 122 then c - 71
      else if 48 \<le> c \<and> c \<le> 57 then c + 4
      else if c = 43 then 62 else 63)"

fun decodeSextets :: "nat list \<Rightarrow> nat list" where
  "decodeSextets (a # b # c # d # rest) =
     (a * 4 + b div 16) # ((b mod 16) * 16 + c div 4) # ((c mod 4) * 64 + d) # decodeSextets rest"
| "decodeSextets [a, b, c] = [a * 4 + b div 16, (b mod 16) * 16 + c div 4]"
| "decodeSextets [a, b] = [a * 4 + b div 16]"
| "decodeSextets [a] = []"
| "decodeSextets [] = []"

definition stripPadding :: "jsString \<Rightarrow> jsString" where
  "stripPadding d =
     (if length d mod 4 = 0
      then (if 2 \<le> length d \<and> last d = 61 \<and> last (butlast d) = 61 then butlast (butlast d)
            else if d \<noteq> [] \<and> last d = 61 then butlast d
            else d)
      else d)"

definition atob :: "jsString \<Rightarrow> jsString option" where
  "atob data =
     (let d = stripPadding (filter (\<lambda>c. \<not> isAsciiWhitespace c) data)
      in if length d mod 4 = 1 then None
         else if \<not> list_all isBase64Char d then None
         else Some (decodeSextets (map base64Sextet d)))"

subsection \<open>Helper functions\<close>

datatype sizeCategory = Tiny | Small | Medium | Large | XLarge

definition hexDigit :: "nat \<Rightarrow> char" where
  "hexDigit d = (if d < 10 then char_of (48 + d) else char_of (87 + d))"

text \<open>\<^verbatim>\<open>n.toString(16)\<close> on a code unit, and \<^verbatim>\<open>.padStart(2, '0')\<close>.\<close>

fun toString16 :: "nat \<Rightarrow> string" where
  "toString16 n = (if n < 16 then [hexDigit n] else toString16 (n div 16) @ [hexDigit (n mod 16)])"

declare toString16.simps [simp del]

definition padStart2 :: "string \<Rightarrow> string" where
  "padStart2 s = replicate (2 - length s) (CHR ''0'') @ s"

definition hexOfCodeUnit :: "nat \<Rightarrow> string" where
  "hexOfCodeUnit c = padStart2 (toString16 c)"

text \<open>
  \<^verbatim>\<open>base64ToHex\<close>: the loop runs over \<^verbatim>\<open>i < binary.length && i < maxBytes\<close>; the
  \<^verbatim>\<open>catch\<close> returns the empty string.
\<close>

definition base64ToHex :: "jsString \<Rightarrow> nat \<Rightarrow> string" where
  "base64ToHex base64 maxBytes =
     (case atob base64 of
        None \<Rightarrow> []
      | Some binary \<Rightarrow> concat (map hexOfCodeUnit (take maxBytes binary)))"

text \<open>
  \<^verbatim>\<open>payload.match(/^[A-Za-z0-9+/]+=*$/)\<close>: a non-empty run of base64 characters followed
  by \<^verbatim>\<open>=\<close> characters only, up to the end of the string.
\<close>

definition matchesBase64 :: "jsString \<Rightarrow> bool" where
  "matchesBase64 payload =
     (takeWhile isBase64Char payload \<noteq> [] \<and>
      list_all (\<lambda>c. c = 61) (dropWhile isBase64Char payload))"

definition getHead4B :: "jsString \<Rightarrow> int \<Rightarrow> string" where
  "getHead4B payload opc =
     (if opc = 2 \<or> matchesBase64 payload then base64ToHex payload 4
      else concat (map hexOfCodeUnit (take (min (length payload) 4) payload)))"

definition getSizeCategory :: "int \<Rightarrow> sizeCategory" where
  "getSizeCategory sz =
     (if sz < 32 then Tiny
      else if sz < 128 then Small
      else if sz < 512 then Medium
      else if sz < 2048 then Large
      else XLarge)"

definition startsWith :: "string \<Rightarrow> string \<Rightarrow> bool" where
  "startsWith s p = (take (length p) s = p)"

definition hexDigitValue :: "char \<Rightarrow> nat option" where
  "hexDigitValue ch =
     (let c = (of_char ch :: nat)
      in if 48 \<le> c \<and> c \<le> 57 then Some (c - 48)
         else if 97 \<le> c \<and> c \<le> 102 then Some (c - 87)
         else if 65 \<le> c \<and> c \<le> 70 then Some (c - 55)
         else None)"

text \<open>
  \<^verbatim>\<open>parseInt(s, 16)\<close> on a string without sign, blanks or prefix: the value of the
  longest run of hexadecimal digits at the start, \<open>None\<close> (NaN) when there is none.
\<close>

definition parseInt16 :: "string \<Rightarrow> nat option" where
  "parseInt16 s =
     (let ds = takeWhile (\<lambda>ch. hexDigitValue ch \<noteq> None) s
      in if ds = [] then None
         else Some (foldl (\<lambda>acc ch. acc * 16 + (case hexDigitValue ch of Some v \<Rightarrow> v | None \<Rightarrow> 0)) 0 ds))"

definition guessHintFromHead :: "string \<Rightarrow> string" where
  "guessHintFromHead head4B =
     (if head4B = [] then ''-''
      else if startsWith head4B ''1f8b'' then ''Gzip''
      else if startsWith head4B ''08'' \<or> startsWith head4B ''0a'' \<or> startsWith head4B ''10'' \<or>
              startsWith head4B ''12'' \<or> startsWith head4B ''18'' \<or> startsWith head4B ''1a'' \<or>
              startsWith head4B ''20'' \<or> startsWith head4B ''22'' then ''Protobuf''
      else if startsWith head4B ''7b'' \<or> startsWith head4B ''5b'' then ''JSON''
      else if (case parseInt16 (take 2 head4B) of
                 None \<Rightarrow> False
               | Some firstByte \<Rightarrow> 128 \<le> firstByte \<and> firstByte \<le> 191) then ''MsgPack''
      else if head4B = ''28b52ffd'' then ''Zstd''
      else if head4B = ''70696e67'' then ''ping''
      else if head4B = ''706f6e67'' then ''pong''
      else ''-'')"

text \<open>
  \<^verbatim>\<open>generateGroupId\<close>: the body of the \<^verbatim>\<open>do ... while (n >= 0)\<close> loop runs once, then
  again while the new \<^verbatim>\<open>n = Math.floor(n / 26) - 1\<close> is not negative.
\<close>

function generateGroupId_loop :: "int \<Rightarrow> string \<Rightarrow> string" where
  "generateGroupId_loop n ident =
     (if 0 \<le> n div 26 - 1
      then generateGroupId_loop (n div 26 - 1) (char_of (65 + n mod 26) # ident)
      else char_of (65 + n mod 26) # ident)"
  by pat_completeness auto
termination
  by (relation "measure (\<lambda>(n, ident). nat n)") auto

declare generateGroupId_loop.simps [simp del]

definition generateGroupId :: "nat \<Rightarrow> string" where
  "generateGroupId index = generateGroupId_loop (int index) []"


subsection \<open>The analysis\<close>

text \<open>The values of \<^verbatim>\<open>groupMap\<close>, the groups of the result and the result.\<close>

record groupEntry =
  g_direction :: webSocketDirection
  g_head4B :: string
  g_sizeCategory :: sizeCategory
  g_indices :: "nat list"
  g_minSize :: nat
  g_maxSize :: nat

record messageGroupV2 =
  mg_id :: string
  mg_direction :: webSocketDirection
  mg_head4B :: string
  mg_sizeCategory :: sizeCategory
  mg_count :: nat
  mg_minSize :: nat
  mg_maxSize :: nat
  mg_hint :: string
  mg_sampleIndices :: "nat list"

record trafficSummary =
  ts_wsid :: int
  ts_url :: string
  ts_durationMs :: real
  ts_totalFrames :: nat
  ts_sentCount :: nat
  ts_receivedCount :: nat
  ts_groups :: "messageGroupV2 list"
  ts_groupToIndices :: "(string \<times> nat list) list"

text \<open>
  A JavaScript \<^verbatim>\<open>Map\<close> keeps its entries in insertion order: it is an association
  list, \<^verbatim>\<open>get\<close> is \<open>map_of\<close>, and \<^verbatim>\<open>set\<close> replaces the value of a key that is
  present and appends a new entry otherwise.
\<close>

fun map_set :: "'k \<Rightarrow> 'v \<Rightarrow> ('k \<times> 'v) list \<Rightarrow> ('k \<times> 'v) list" where
  "map_set k v [] = [(k, v)]"
| "map_set k v ((k', v') # m) = (if k' = k then (k, v) # m else (k', v') # map_set k v m)"

definition directionString :: "webSocketDirection \<Rightarrow> string" where
  "directionString d = (case d of Sent \<Rightarrow> ''sent'' | Received \<Rightarrow> ''received'')"

definition sizeCategoryString :: "sizeCategory \<Rightarrow> string" where
  "sizeCategoryString s =
     (case s of Tiny \<Rightarrow> ''tiny'' | Small \<Rightarrow> ''small'' | Medium \<Rightarrow> ''medium''
      | Large \<Rightarrow> ''large'' | XLarge \<Rightarrow> ''xlarge'')"

text \<open>The body of \<^verbatim>\<open>frames.forEach((frame, index) => ...)\<close>.\<close>

definition addFrame ::
  "(string \<times> groupEntry) list \<Rightarrow> webSocketFrame \<Rightarrow> nat \<Rightarrow> (string \<times> groupEntry) list" where
  "addFrame groupMap frame index =
     (let head4B = getHead4B (payloadData frame) (opcode frame);
          sz = length (payloadData frame);
          cat = getSizeCategory (int sz);
          key = directionString (direction frame) @ '':'' @ head4B @ '':'' @ sizeCategoryString cat;
          groupMap1 =
            (if map_of groupMap key = None
             then map_set key \<lparr>g_direction = direction frame, g_head4B = head4B,
                               g_sizeCategory = cat, g_indices = [],
                               g_minSize = sz, g_maxSize = sz\<rparr> groupMap
             else groupMap)
      in case map_of groupMap1 key of
           None \<Rightarrow> groupMap1
         | Some grp \<Rightarrow>
             map_set key (grp\<lparr>g_indices := g_indices grp @ [index],
                                g_minSize := min (g_minSize grp) sz,
                                g_maxSize := max (g_maxSize grp) sz\<rparr>) groupMap1)"

fun groupFrames ::
  "(string \<times> groupEntry) list \<Rightarrow> nat \<Rightarrow> webSocketFrame list \<Rightarrow> (string \<times> groupEntry) list" where
  "groupFrames groupMap index [] = groupMap"
| "groupFrames groupMap index (frame # rest) =
     groupFrames (addFrame groupMap frame index) (Suc index) rest"

text \<open>
  \<^verbatim>\<open>groupEntries.sort((a, b) => b[1].indices.length - a[1].indices.length)\<close>:
  \<^verbatim>\<open>Array.prototype.sort\<close> is stable, and so is \<open>sort_key\<close>, so both give the one
  stable arrangement by descending count.
\<close>

definition sortByCount :: "(string \<times> groupEntry) list \<Rightarrow> (string \<times> groupEntry) list" where
  "sortByCount groupEntries = sort_key (\<lambda>e. - int (length (g_indices (snd e)))) groupEntries"

text \<open>The body of \<^verbatim>\<open>groupEntries.forEach(([, group], idx) => ...)\<close> and the loop.\<close>

fun buildGroups ::
  "(string \<times> groupEntry) list \<Rightarrow> nat \<Rightarrow> messageGroupV2 list \<Rightarrow> (string \<times> nat list) list
     \<Rightarrow> messageGroupV2 list \<times> (string \<times> nat list) list" where
  "buildGroups [] idx groups groupToIndices = (groups, groupToIndices)"
| "buildGroups (entry # rest) idx groups groupToIndices =
     (let grp = snd entry;
          ident = generateGroupId idx;
          hint = guessHintFromHead (g_head4B grp);
          sampleIndices = take 3 (g_indices grp)
      in buildGroups rest (Suc idx)
           (groups @ [\<lparr>mg_id = ident, mg_direction = g_direction grp,
                        mg_head4B = g_head4B grp, mg_sizeCategory = g_sizeCategory grp,
                        mg_count = length (g_indices grp), mg_minSize = g_minSize grp,
                        mg_maxSize = g_maxSize grp, mg_hint = hint,
                        mg_sampleIndices = sampleIndices\<rparr>])
           (map_set ident (g_indices grp) groupToIndices))"

definition analyzeWebSocketFramesV2 ::
  "webSocketFrame list \<Rightarrow> int \<Rightarrow> string \<Rightarrow> trafficSummary" where
  "analyzeWebSocketFramesV2 frs wsid u =
     (let sentCount = length (filter (\<lambda>f. direction f = Sent) frs);
          receivedCount = length (filter (\<lambda>f. direction f = Received) frs);
          durationMs = (if 1 < length frs then timestamp (last frs) - timestamp (frs ! 0) else 0);
          groupMap = groupFrames [] 0 frs;
          groupEntries = sortByCount groupMap;
          (groups, groupToIndices) = buildGroups groupEntries 0 [] []
      in \<lparr>ts_wsid = wsid, ts_url = u, ts_durationMs = durationMs,
          ts_totalFrames = length frs, ts_sentCount = sentCount,
          ts_receivedCount = receivedCount, ts_groups = groups,
          ts_groupToIndices = groupToIndices\<rparr>)"

subsection \<open>Byte length of a binary payload\<close>

text \<open>
  The specification speaks of the byte length of a payload. A binary frame arrives with
  its bytes base64-encoded in \<^verbatim>\<open>payloadData\<close>; its byte length is the number of bytes the
  encoding decodes to (\<open>None\<close> when the string is not base64).
\<close>

definition base64ByteLength :: "jsString \<Rightarrow> nat option" where
  "base64ByteLength payload = map_option length (atob payload)"


section \<open>Example data\<close>

text \<open>
  Five requests of page 0, whose main frame is frame 0: \<open>ex_r1\<close> and \<open>ex_r3\<close> are
  navigation requests of the main frame, \<open>ex_r5\<close> is a navigation request of another
  frame.
\<close>

definition ex_mainFrame :: "page \<Rightarrow> frame" where
  "ex_mainFrame p = 0"

definition ex_request :: "string \<Rightarrow> frame \<Rightarrow> bool \<Rightarrow> int \<Rightarrow> httpRequest withSymbolId" where
  "ex_request rid fr nav ident =
     \<lparr>resource = \<lparr>req_id = rid, req_frame = Some fr, req_isNavigationRequest = nav\<rparr>,
      stableIdSymbol = Some ident\<rparr>"

definition ex_r1 :: "httpRequest withSymbolId" where "ex_r1 = ex_request ''r1'' 0 True 1"
definition ex_r2 :: "httpRequest withSymbolId" where "ex_r2 = ex_request ''r2'' 0 False 2"
definition ex_r3 :: "httpRequest withSymbolId" where "ex_r3 = ex_request ''r3'' 0 True 3"
definition ex_r4 :: "httpRequest withSymbolId" where "ex_r4 = ex_request ''r4'' 0 False 4"
definition ex_r5 :: "httpRequest withSymbolId" where "ex_r5 = ex_request ''r5'' 7 True 5"

definition ex_network :: networkCollector where
  "ex_network =
     \<lparr>storage = [0 \<mapsto> [[ex_r1, ex_r2, ex_r3, ex_r4, ex_r5]]],
      listeners = [0 \<mapsto> 6],
      initiators = [0 \<mapsto> Map.empty]\<rparr>"

definition ex_network_plain :: networkCollector where
  "ex_network_plain =
     \<lparr>storage = [0 \<mapsto> [[ex_r2, ex_r4]]],
      listeners = [0 \<mapsto> 6],
      initiators = [0 \<mapsto> Map.empty]\<rparr>"

text \<open>Four navigations of page 0, one request before each.\<close>

definition ex_plainRequest :: "string \<Rightarrow> httpRequest" where
  "ex_plainRequest rid = \<lparr>req_id = rid, req_frame = Some 0, req_isNavigationRequest = False\<rparr>"

definition ex_fourNavigations :: "networkEvent list" where
  "ex_fourNavigations =
     [NetworkTargetCreated 0,
      Request 0 (ex_plainRequest ''a''), NetworkFrameNavigated 0 0,
      Request 0 (ex_plainRequest ''b''), NetworkFrameNavigated 0 0,
      Request 0 (ex_plainRequest ''c''), NetworkFrameNavigated 0 0,
      Request 0 (ex_plainRequest ''d''), NetworkFrameNavigated 0 0]"

definition ex_item :: "string \<Rightarrow> int \<Rightarrow> httpRequest withSymbolId" where
  "ex_item rid ident = \<lparr>resource = ex_plainRequest rid, stableIdSymbol = Some ident\<rparr>"

definition ex_pageEvents1 :: "string pageEvent list" where
  "ex_pageEvents1 = [TargetCreated 0, PageEvent 0 ''first'', FrameNavigated 0 0]"

definition ex_pageEvents2 :: "string pageEvent list" where
  "ex_pageEvents2 = [PageEvent 0 ''second'', PageEvent 0 ''third'']"

definition ex_pageEvents :: "string pageEvent list" where
  "ex_pageEvents = ex_pageEvents1 @ ex_pageEvents2"



text \<open>
  A WebSocket collector tracking page 0 with one connection \<^verbatim>\<open>ws1\<close>, as the first two
  events of \<open>ex_wsEvents\<close> leave it.
\<close>

definition ex_wsEvents :: "wsEvent list" where
  "ex_wsEvents = [WsTargetCreated 0, WebSocketCreated 0 ''ws1'' ''wss://example'' None 5]"

definition ex_wsEvents2 :: "wsEvent list" where
  "ex_wsEvents2 =
     ex_wsEvents @ [WsFrameNavigated 0 0, WebSocketCreated 0 ''ws2'' ''wss://example'' None 9]"

definition ex_connection :: webSocketData where
  "ex_connection =
     \<lparr>connection = \<lparr>requestId = ''ws1'', url = ''wss://example'', initiator = None,
                     status = Open, createdAt = 5, closedAt = None\<rparr>,
      frames = [], wsStableIdSymbol = Some 1\<rparr>"

definition ex_webSocket :: webSocketCollector where
  "ex_webSocket =
     \<lparr>ws_storage = [0 \<mapsto> [[0]]], connectionMap = [0 \<mapsto> 0], idGenerators = [0 \<mapsto> 0],
      cdpListeners = [0 \<mapsto> \<lparr>captured_connectionMap = 0, captured_idGenerator = 0\<rparr>],
      frameNavigatedListeners = (\<lambda>_. 0)(0 := Suc 0),
      objects = [ex_connection], mapObjects = [[''ws1'' \<mapsto> 0]], generators = [2]\<rparr>"

text \<open>
  Frames: five text frames in two groups; 27 text frames with 27 different first bytes; and
  a binary frame whose payload is the base64 text of 24 zero bytes (32 characters \<^verbatim>\<open>A\<close>).
\<close>

definition ex_textFrame :: "webSocketDirection \<Rightarrow> jsString \<Rightarrow> webSocketFrame" where
  "ex_textFrame d p =
     \<lparr>frame_requestId = ''ws1'', direction = d, timestamp = 0, opcode = 1, payloadData = p\<rparr>"

definition ex_frames :: "webSocketFrame list" where
  "ex_frames =
     [ex_textFrame Sent [33, 97], ex_textFrame Received [33, 98], ex_textFrame Received [33, 98],
      ex_textFrame Sent [33, 97], ex_textFrame Received [33, 98]]"

definition ex_frames27 :: "webSocketFrame list" where
  "ex_frames27 = map (\<lambda>i. ex_textFrame Sent [33, 65 + i]) [0..<27]"

definition ex_binaryFrame :: webSocketFrame where
  "ex_binaryFrame =
     \<lparr>frame_requestId = ''ws1'', direction = Received, timestamp = 0, opcode = 2,
      payloadData = replicate 32 65\<rparr>"

section \<open>Invariants of the collectors\<close>

text \<open>
  The predicates that the proofs carry along an execution. In a \<^verbatim>\<open>PageCollector\<close> no
  page has an empty list of navigations; under the default rotation a page has at most
  \<open>maxNavigationSaved\<close> navigations; and, with \<open>b\<close> bounding the counters of the ID
  generators, every stored item of a page carries an ID between 1 and the page's counter,
  no two of them the same.
\<close>

definition nonempty_ok :: "('a, 'm) pageCollector_scheme \<Rightarrow> bool" where
  "nonempty_ok c \<longleftrightarrow> (\<forall>p. storage c p \<noteq> Some [])"

definition bounded_ok :: "('a, 'm) pageCollector_scheme \<Rightarrow> bool" where
  "bounded_ok c \<longleftrightarrow> (\<forall>p navs. storage c p = Some navs \<longrightarrow> length navs \<le> maxNavigationSaved)"

definition page_ids_ok :: "int \<Rightarrow> int option \<Rightarrow> 'a withSymbolId list list \<Rightarrow> bool" where
  "page_ids_ok b gen navs \<longleftrightarrow>
     (\<exists>i. gen = Some i \<and> 1 \<le> i \<and> i \<le> b \<and>
          distinct (map stableIdSymbol (concat navs)) \<and>
          (\<forall>x \<in> set (concat navs). \<exists>k. stableIdSymbol x = Some k \<and> 1 \<le> k \<and> k < i))"

definition ids_ok :: "int \<Rightarrow> ('a, 'm) pageCollector_scheme \<Rightarrow> bool" where
  "ids_ok b c \<longleftrightarrow>
     (\<forall>p navs. storage c p = Some navs \<longrightarrow> page_ids_ok b (listeners c p) navs)"



definition ws_shape_ok :: "webSocketCollector \<Rightarrow> bool" where
  "ws_shape_ok c \<longleftrightarrow>
     (\<forall>p navs. ws_storage c p = Some navs \<longrightarrow> navs \<noteq> [] \<and> length navs \<le> maxNavigationSaved)"

text \<open>
  In a WebSocket collector the connection map captured by the listeners of a page is an
  allocated map, no two pages' listeners capture the same one, and (for a page and a
  connection ID that was never created for it) the captured map has no entry for the ID.
\<close>

definition ws_refs_ok :: "webSocketCollector \<Rightarrow> bool" where
  "ws_refs_ok c \<longleftrightarrow>
     (\<forall>p l. cdpListeners c p = Some l \<longrightarrow> captured_connectionMap l < length (mapObjects c)) \<and>
     (\<forall>p q l l'. cdpListeners c p = Some l \<and> cdpListeners c q = Some l' \<and>
        captured_connectionMap l = captured_connectionMap l' \<longrightarrow> p = q)"

definition ws_unknown_ok :: "page \<Rightarrow> string \<Rightarrow> webSocketCollector \<Rightarrow> bool" where
  "ws_unknown_ok page rid c \<longleftrightarrow>
     (\<forall>l. cdpListeners c page = Some l \<longrightarrow> (mapObjects c ! captured_connectionMap l) rid = None)"

text \<open>
  For the analysis: the key of a frame in \<^verbatim>\<open>groupMap\<close>; the entry of a key once a frame
  with index \<open>i\<close> is added to the entry \<open>old\<close> the key had; the invariant of the grouping
  loop over the frames \<open>fs\<close> seen so far (keys are not repeated, the entry of a key lists
  in increasing order the indices of the frames with that key and has their size category,
  and every frame's key has an entry); the group made of an entry and its rank; and the
  value of a letter code in bijective base 26.
\<close>

definition frameKey :: "webSocketFrame \<Rightarrow> string" where
  "frameKey f =
     directionString (direction f) @ '':'' @ getHead4B (payloadData f) (opcode f) @ '':'' @
     sizeCategoryString (getSizeCategory (int (length (payloadData f))))"

definition addedEntry :: "groupEntry option \<Rightarrow> webSocketFrame \<Rightarrow> nat \<Rightarrow> groupEntry" where
  "addedEntry old f i =
     (case old of
        None \<Rightarrow> \<lparr>g_direction = direction f,
                  g_head4B = getHead4B (payloadData f) (opcode f),
                  g_sizeCategory = getSizeCategory (int (length (payloadData f))),
                  g_indices = [i],
                  g_minSize = length (payloadData f), g_maxSize = length (payloadData f)\<rparr>
      | Some g \<Rightarrow> g\<lparr>g_indices := g_indices g @ [i],
                     g_minSize := min (g_minSize g) (length (payloadData f)),
                     g_maxSize := max (g_maxSize g) (length (payloadData f))\<rparr>)"

definition grouped :: "webSocketFrame list \<Rightarrow> (string \<times> groupEntry) list \<Rightarrow> bool" where
  "grouped fs m \<longleftrightarrow>
     distinct (map fst m) \<and>
     (\<forall>k g. map_of m k = Some g \<longrightarrow>
        g_indices g = filter (\<lambda>i. frameKey (fs ! i) = k) [0..<length fs] \<and>
        g_indices g \<noteq> [] \<and>
        (\<forall>i \<in> set (g_indices g).
           g_sizeCategory g = getSizeCategory (int (length (payloadData (fs ! i)))))) \<and>
     (\<forall>i < length fs. map_of m (frameKey (fs ! i)) \<noteq> None)"

definition groupOf :: "nat \<Rightarrow> string \<times> groupEntry \<Rightarrow> messageGroupV2" where
  "groupOf idx e =
     \<lparr>mg_id = generateGroupId idx, mg_direction = g_direction (snd e),
      mg_head4B = g_head4B (snd e), mg_sizeCategory = g_sizeCategory (snd e),
      mg_count = length (g_indices (snd e)), mg_minSize = g_minSize (snd e),
      mg_maxSize = g_maxSize (snd e), mg_hint = guessHintFromHead (g_head4B (snd e)),
      mg_sampleIndices = take 3 (g_indices (snd e))\<rparr>"

definition groupIdValue :: "string \<Rightarrow> int" where
  "groupIdValue s = foldl (\<lambda>v ch. 26 * v + (of_char ch - 64)) 0 s"

section \<open>The ID generator wraps to 0\<close>

lemma idGenerator_state_Suc:
  "idGenerator_state (Suc n) = snd (idGenerator (idGenerator_state n))"
  by (simp add: idGenerator_state_def)

lemma idGenerator_state_no_wrap:
  "int n < MAX_SAFE_INTEGER \<Longrightarrow> idGenerator_state n = 1 + int n"
proof (induction n)
  case 0
  show ?case by (simp add: idGenerator_state_def createIdGenerator_def)
next
  case (Suc n)
  then have "idGenerator_state n = 1 + int n" and "1 + int n \<noteq> MAX_SAFE_INTEGER"
    by simp_all
  then show ?case
    by (simp add: idGenerator_state_Suc idGenerator_def)
qed

lemma idGenerator_nth_no_wrap:
  "int n < MAX_SAFE_INTEGER - 1 \<Longrightarrow> idGenerator_nth n = 1 + int n"
  by (simp add: idGenerator_nth_def idGenerator_state_no_wrap idGenerator_def)

text \<open>
  Claim C5 (stable ID generator wraparound) says that every identifier is positive and
  that the generator wraps back to 1, never yielding 0. The code resets \<^verbatim>\<open>i\<close> to 0 and
  returns it: after the identifiers 1, ..., 9007199254740990 (calls 0 to
  9007199254740989) the counter equals \<^verbatim>\<open>Number.MAX_SAFE_INTEGER\<close>, the next call
  returns 0, and the one after it returns 1.
\<close>

theorem C5_generator_wraps_to_zero:
  "idGenerator_state 9007199254740990 = MAX_SAFE_INTEGER \<and>
   idGenerator_nth 9007199254740989 = 9007199254740990 \<and>
   idGenerator_nth 9007199254740990 = 0 \<and>
   idGenerator_nth 9007199254740991 = 1"
proof -
  have s: "idGenerator_state 9007199254740990 = MAX_SAFE_INTEGER"
    using idGenerator_state_no_wrap [of 9007199254740990]
    by (simp add: MAX_SAFE_INTEGER_def)
  have a: "idGenerator_nth 9007199254740989 = 9007199254740990"
    using idGenerator_nth_no_wrap [of 9007199254740989]
    by (simp add: MAX_SAFE_INTEGER_def)
  have b: "idGenerator_nth 9007199254740990 = 0"
    by (simp add: idGenerator_nth_def s idGenerator_def)
  have "idGenerator_state (Suc 9007199254740990) = 1"
    by (simp only: idGenerator_state_Suc s) (simp add: idGenerator_def)
  then have c: "idGenerator_nth 9007199254740991 = 1"
    by (simp add: idGenerator_nth_def idGenerator_def MAX_SAFE_INTEGER_def)
  from s a b c show ?thesis by simp
qed

section \<open>The cut of the Network collector\<close>

lemma findLastIndex_from_none:
  "(\<And>j. j < n \<Longrightarrow> \<not> P (xs ! j)) \<Longrightarrow> findLastIndex_from P xs n = - 1"
  by (induction n) simp_all

lemma findLastIndex_from_last:
  "k < n \<Longrightarrow> P (xs ! k) \<Longrightarrow> (\<And>j. k < j \<Longrightarrow> j < n \<Longrightarrow> \<not> P (xs ! j))
     \<Longrightarrow> findLastIndex_from P xs n = int k"
proof (induction n)
  case 0
  then show ?case by simp
next
  case (Suc n)
  show ?case
  proof (cases "k = n")
    case True
    with Suc.prems show ?thesis by simp
  next
    case False
    with Suc.prems have "k < n" by simp
    moreover have "\<not> P (xs ! n)" using Suc.prems(3) [of n] \<open>k < n\<close> by simp
    ultimately show ?thesis using Suc by simp
  qed
qed

lemma findLastIndex_none:
  "\<forall>x \<in> set xs. \<not> P x \<Longrightarrow> findLastIndex P xs = - 1"
  unfolding findLastIndex_def by (rule findLastIndex_from_none) simp

lemma findLastIndex_append:
  assumes "P r" and "\<forall>x \<in> set after. \<not> P x"
  shows "findLastIndex P (before @ r # after) = int (length before)"
  unfolding findLastIndex_def
proof (rule findLastIndex_from_last)
  show "length before < length (before @ r # after)" by simp
  show "P ((before @ r # after) ! length before)" using assms(1) by simp
  fix j assume "length before < j" and "j < length (before @ r # after)"
  then have "(before @ r # after) ! j = after ! (j - Suc (length before))"
    and "j - Suc (length before) < length after"
    by (auto simp: nth_append nth_Cons')
  with assms(2) show "\<not> P ((before @ r # after) ! j)" by simp
qed

lemma network_split_found:
  assumes "storage c page = Some ((before @ r # after) # preserved)"
    and "isMainFrameNavigation (mainFrame page) r"
    and "\<forall>x \<in> set after. \<not> isMainFrameNavigation (mainFrame page) x"
  shows "\<exists>c'. network_splitAfterNavigation mainFrame page c = Inr c' \<and>
              storage c' page = Some ((r # after) # before # preserved)"
  using assms(1) findLastIndex_append [OF assms(2,3), of before]
  by (simp add: network_splitAfterNavigation_def)

lemma network_split_not_found:
  assumes "storage c page = Some (requests # preserved)"
    and "\<forall>x \<in> set requests. \<not> isMainFrameNavigation (mainFrame page) x"
  shows "\<exists>c'. network_splitAfterNavigation mainFrame page c = Inr c' \<and>
              storage c' page = Some ([] # requests # preserved)"
  using assms(1) findLastIndex_none [OF assms(2)]
  by (simp add: network_splitAfterNavigation_def)

text \<open>
  Claim C1 (Network cut-point correctness). Let the current navigation of a page hold
  \<open>requests\<close>. If \<open>requests = before @ r # after\<close>, where \<open>r\<close> is a navigation request
  of the main frame and no request of \<open>after\<close> is one (so \<open>r\<close> is the most recent), the
  rotation succeeds, the new current navigation is \<open>r # after\<close> in the same order and
  \<open>before\<close> stays behind as the previous one. If no request is a navigation request of the
  main frame, an empty navigation is pushed in front of \<open>requests\<close>.
\<close>

theorem C1_network_cut_point:
  assumes "storage c page = Some (requests # preserved)"
  shows "(requests = before @ r # after \<and> isMainFrameNavigation (mainFrame page) r \<and>
          (\<forall>x \<in> set after. \<not> isMainFrameNavigation (mainFrame page) x)
          \<longrightarrow> (\<exists>c'. network_splitAfterNavigation mainFrame page c = Inr c' \<and>
                    storage c' page = Some ((r # after) # before # preserved)))
       \<and> ((\<forall>x \<in> set requests. \<not> isMainFrameNavigation (mainFrame page) x)
          \<longrightarrow> (\<exists>c'. network_splitAfterNavigation mainFrame page c = Inr c' \<and>
                    storage c' page = Some ([] # requests # preserved)))"
  using assms network_split_found [of c page before r after preserved mainFrame]
    network_split_not_found [of c page requests preserved mainFrame]
  by blast

theorem C1_network_cut_point_witness:
  "storage ex_network 0 = Some ([ex_r1, ex_r2, ex_r3, ex_r4, ex_r5] # []) \<and>
   isMainFrameNavigation (ex_mainFrame 0) ex_r3 \<and>
   \<not> isMainFrameNavigation (ex_mainFrame 0) ex_r4 \<and>
   \<not> isMainFrameNavigation (ex_mainFrame 0) ex_r5 \<and>
   (\<exists>c'. network_splitAfterNavigation ex_mainFrame 0 ex_network = Inr c' \<and>
         storage c' 0 = Some ([ex_r3, ex_r4, ex_r5] # [ex_r1, ex_r2] # [])) \<and>
   storage ex_network_plain 0 = Some ([ex_r2, ex_r4] # []) \<and>
   \<not> isMainFrameNavigation (ex_mainFrame 0) ex_r2 \<and>
   (\<exists>c'. network_splitAfterNavigation ex_mainFrame 0 ex_network_plain = Inr c' \<and>
         storage c' 0 = Some ([] # [ex_r2, ex_r4] # []))"
  using C1_network_cut_point [of ex_network 0 "[ex_r1, ex_r2, ex_r3, ex_r4, ex_r5]" "[]"
      "[ex_r1, ex_r2]" ex_r3 "[ex_r4, ex_r5]" ex_mainFrame]
    C1_network_cut_point [of ex_network_plain 0 "[ex_r2, ex_r4]" "[]" "[]" ex_r2 "[ex_r4]"
      ex_mainFrame]
  by (simp add: ex_network_def ex_network_plain_def isMainFrameNavigation_def ex_mainFrame_def
      ex_r2_def ex_r3_def ex_r4_def ex_r5_def ex_request_def)

section \<open>Executions of the collectors\<close>

subsection \<open>No empty list of navigations, and the retention bound\<close>

lemma step_nonempty:
  assumes "nonempty_ok c"
  shows "\<exists>c'. step mainFrame e c = Inr c' \<and> nonempty_ok c'"
proof (cases e)
  case (TargetCreated p)
  with assms show ?thesis by (simp add: nonempty_ok_def initializePage_def)
next
  case (PageEvent p v)
  with assms show ?thesis
    by (auto simp: nonempty_ok_def collect_def idGenerator_def Let_def
        split: option.splits list.splits)
next
  case (FrameNavigated p f)
  with assms show ?thesis
    by (auto simp: nonempty_ok_def splitAfterNavigation_def maxNavigationSaved_def
        split: option.splits)
next
  case (TargetDestroyed p)
  with assms show ?thesis by (simp add: nonempty_ok_def cleanupPageDestroyed_def)
qed

lemma step_bounded:
  assumes "bounded_ok c" and "step mainFrame e c = Inr c'"
  shows "bounded_ok c'"
proof (cases e)
  case (TargetCreated p)
  with assms show ?thesis
    by (auto simp: bounded_ok_def initializePage_def maxNavigationSaved_def split: if_splits)
next
  case (PageEvent p v)
  with assms show ?thesis
    by (fastforce simp: bounded_ok_def collect_def idGenerator_def Let_def
        split: option.splits list.splits if_splits)
next
  case (FrameNavigated p f)
  with assms show ?thesis
    by (auto simp: bounded_ok_def splitAfterNavigation_def
        split: option.splits if_splits)
next
  case (TargetDestroyed p)
  with assms show ?thesis
    by (auto simp: bounded_ok_def cleanupPageDestroyed_def split: if_splits)
qed

lemma exec_shape:
  "nonempty_ok c \<Longrightarrow> bounded_ok c
     \<Longrightarrow> \<exists>c'. exec mainFrame evs c = Inr c' \<and> nonempty_ok c' \<and> bounded_ok c'"
proof (induction evs arbitrary: c)
  case Nil
  then show ?case by simp
next
  case (Cons e evs)
  from step_nonempty [OF Cons.prems(1), of mainFrame e]
  obtain c1 where c1: "step mainFrame e c = Inr c1" "nonempty_ok c1" by blast
  from step_bounded [OF Cons.prems(2) c1(1)] have "bounded_ok c1" .
  from Cons.IH [OF c1(2) this] c1(1) show ?case by simp
qed

lemma newPageCollector_nonempty: "nonempty_ok newPageCollector"
  by (simp add: nonempty_ok_def newPageCollector_def)

lemma newPageCollector_bounded: "bounded_ok newPageCollector"
  by (simp add: bounded_ok_def newPageCollector_def)

subsection \<open>The loop of getData\<close>

lemma getData_loop_eq:
  "getData_loop navs k data = data @ concat (rev (take (Suc k) navs))"
proof (induction k arbitrary: data)
  case 0
  show ?case by (cases navs) simp_all
next
  case (Suc k)
  show ?case
  proof (cases "Suc k < length navs")
    case True
    then show ?thesis
      by (simp add: Suc.IH take_Suc_conv_app_nth [of "Suc k"])
  next
    case False
    then show ?thesis by (simp add: Suc.IH)
  qed
qed

lemma concat_rev_order:
  assumes "j < i" and "i < length navs"
  shows "\<exists>pre mid post. concat (rev navs) = pre @ navs ! i @ mid @ navs ! j @ post"
proof -
  have 1: "navs = take j navs @ navs ! j # drop (Suc j) navs"
    using assms by (simp add: id_take_nth_drop)
  let ?rest = "drop (Suc j) navs"
  have i': "i - Suc j < length ?rest" using assms by simp
  have 2: "?rest = take (i - Suc j) ?rest @ ?rest ! (i - Suc j) # drop (Suc (i - Suc j)) ?rest"
    using i' by (rule id_take_nth_drop)
  have 3: "?rest ! (i - Suc j) = navs ! i" using assms by simp
  have "concat (rev navs) = concat (rev (take j navs @ navs ! j # ?rest))"
    using 1 by simp
  also have "\<dots> = concat (rev ?rest) @ navs ! j @ concat (rev (take j navs))" by simp
  also have "concat (rev ?rest) =
      concat (rev (drop (Suc (i - Suc j)) ?rest)) @ navs ! i @ concat (rev (take (i - Suc j) ?rest))"
    by (subst 2) (simp add: 3 del: drop_drop)
  finally show ?thesis by (metis append.assoc)
qed


subsection \<open>IDs of the stored items\<close>




lemma ids_ok_cong:
  "storage c' = storage c \<Longrightarrow> listeners c' = listeners c \<Longrightarrow> ids_ok b c' = ids_ok b c"
  by (simp add: ids_ok_def)













subsection \<open>The Network collector\<close>








subsection \<open>The WebSocket collector\<close>

lemma ws_split_shape: "ws_shape_ok c \<Longrightarrow> ws_shape_ok (ws_splitAfterNavigation p c)"
  by (auto simp: ws_shape_ok_def ws_splitAfterNavigation_def maxNavigationSaved_def
      split: option.splits)

lemma ws_split_funpow_shape: "ws_shape_ok c \<Longrightarrow> ws_shape_ok (((ws_splitAfterNavigation p) ^^ n) c)"
  by (induction n) (simp_all add: ws_split_shape)

lemma ws_step_shape:
  assumes "ws_shape_ok c"
  shows "\<exists>c'. ws_step mainFrame e c = Inr c' \<and> ws_shape_ok c'"
proof (cases e)
  case (WsTargetCreated p)
  with assms show ?thesis
    by (auto simp: ws_shape_ok_def ws_addPage_def Let_def maxNavigationSaved_def)
next
  case (WebSocketCreated p rid u ini now)
  show ?thesis
  proof (cases "cdpListeners c p")
    case None
    with WebSocketCreated assms show ?thesis by (simp add: onCreated_def)
  next
    case (Some l)
    show ?thesis
    proof (cases "ws_storage c p")
      case None
      with Some WebSocketCreated assms show ?thesis
        by (auto simp: onCreated_def ws_shape_ok_def Let_def split: prod.splits)
    next
      case st: (Some navs)
      with assms obtain cur pres where "navs = cur # pres"
        unfolding ws_shape_ok_def by (cases navs) auto
      with st Some WebSocketCreated assms show ?thesis
        by (fastforce simp: onCreated_def ws_shape_ok_def Let_def split: prod.splits)
    qed
  qed
next
  case (WebSocketFrameSent p rid ts opc payload)
  with assms show ?thesis
    by (auto simp: onFrameSent_def onFrame_def ws_shape_ok_def split: option.splits)
next
  case (WebSocketFrameReceived p rid ts opc payload)
  with assms show ?thesis
    by (auto simp: onFrameReceived_def onFrame_def ws_shape_ok_def split: option.splits)
next
  case (WebSocketClosed p rid ts)
  with assms show ?thesis
    by (auto simp: onClosed_def ws_shape_ok_def split: option.splits)
next
  case (WsFrameNavigated p f)
  with assms show ?thesis by (simp add: ws_split_funpow_shape)
next
  case (WsTargetDestroyed p)
  with assms show ?thesis by (auto simp: ws_shape_ok_def ws_cleanupPage_def)
qed

lemma ws_exec_shape:
  "ws_shape_ok c \<Longrightarrow> \<exists>c'. ws_exec mainFrame evs c = Inr c' \<and> ws_shape_ok c'"
proof (induction evs arbitrary: c)
  case Nil
  then show ?case by simp
next
  case (Cons e evs)
  from ws_step_shape [OF Cons.prems, of mainFrame e]
  obtain c1 where c1: "ws_step mainFrame e c = Inr c1" "ws_shape_ok c1" by blast
  from Cons.IH [OF c1(2)] c1(1) show ?case by simp
qed


subsection \<open>IDs are not reused while a page stays tracked\<close>














subsection \<open>Connection IDs that were never created\<close>

lemma ws_split_refs:
  "ws_refs_ok c \<Longrightarrow> ws_unknown_ok page rid c
     \<Longrightarrow> ws_refs_ok (ws_splitAfterNavigation p c) \<and> ws_unknown_ok page rid (ws_splitAfterNavigation p c)"
  unfolding ws_refs_ok_def ws_unknown_ok_def ws_splitAfterNavigation_def
  by (auto split: option.splits simp: nth_append less_Suc_eq)

lemma ws_split_funpow_refs:
  "ws_refs_ok c \<Longrightarrow> ws_unknown_ok page rid c
     \<Longrightarrow> ws_refs_ok (((ws_splitAfterNavigation p) ^^ n) c) \<and>
         ws_unknown_ok page rid (((ws_splitAfterNavigation p) ^^ n) c)"
proof (induction n)
  case 0
  then show ?case by simp
next
  case (Suc n)
  from Suc.IH [OF Suc.prems]
  have "ws_refs_ok (((ws_splitAfterNavigation p) ^^ n) c)"
    and "ws_unknown_ok page rid (((ws_splitAfterNavigation p) ^^ n) c)" by simp_all
  from ws_split_refs [OF this, of p] show ?case by simp
qed

lemma ws_addPage_refs:
  assumes "ws_refs_ok c" and "ws_unknown_ok page rid c"
  shows "ws_refs_ok (ws_addPage q c) \<and> ws_unknown_ok page rid (ws_addPage q c)"
proof (cases "ws_storage c q \<noteq> None")
  case True
  with assms show ?thesis by (simp add: ws_addPage_def)
next
  case False
  from assms(1) have lt: "\<And>p l. cdpListeners c p = Some l \<Longrightarrow>
      captured_connectionMap l < length (mapObjects c)"
    and inj: "\<And>p q l l'. cdpListeners c p = Some l \<Longrightarrow> cdpListeners c q = Some l' \<Longrightarrow>
      captured_connectionMap l = captured_connectionMap l' \<Longrightarrow> p = q"
    unfolding ws_refs_ok_def by blast+
  have 1: "ws_refs_ok (ws_addPage q c)"
    unfolding ws_refs_ok_def
  proof (intro conjI allI impI)
    fix p l assume "cdpListeners (ws_addPage q c) p = Some l"
    with False lt [of p l] show "captured_connectionMap l < length (mapObjects (ws_addPage q c))"
      by (auto simp: ws_addPage_def Let_def less_Suc_eq split: if_splits)
  next
    fix p p' l l'
    assume a: "cdpListeners (ws_addPage q c) p = Some l \<and> cdpListeners (ws_addPage q c) p' = Some l' \<and>
      captured_connectionMap l = captured_connectionMap l'"
    with False lt [of p l] lt [of p' l'] inj [of p l p' l'] show "p = p'"
      by (auto simp: ws_addPage_def Let_def split: if_splits)
  qed
  have 2: "ws_unknown_ok page rid (ws_addPage q c)"
    unfolding ws_unknown_ok_def
  proof (intro allI impI)
    fix l assume "cdpListeners (ws_addPage q c) page = Some l"
    with False lt [of page l] assms(2)
    show "(mapObjects (ws_addPage q c) ! captured_connectionMap l) rid = None"
      by (auto simp: ws_addPage_def Let_def ws_unknown_ok_def nth_append split: if_splits)
  qed
  from 1 2 show ?thesis ..
qed

lemma onCreated_refs:
  assumes "ws_refs_ok c" and "ws_unknown_ok page rid c"
    and "onCreated q rid' u ini now c = Inr c'" and "q \<noteq> page \<or> rid' \<noteq> rid"
  shows "ws_refs_ok c' \<and> ws_unknown_ok page rid c'"
proof (cases "cdpListeners c q")
  case None
  with assms show ?thesis by (simp add: onCreated_def)
next
  case (Some lq)
  let ?m = "captured_connectionMap lq"
  from assms(3) Some
  have cl: "cdpListeners c' = cdpListeners c"
    and len: "length (mapObjects c') = length (mapObjects c)"
    and upd: "mapObjects c' = (mapObjects c)[?m := (mapObjects c ! ?m)(rid' \<mapsto> length (objects c))]"
    by (auto simp: onCreated_def Let_def split: prod.splits option.splits list.splits)
  from assms(1) have lt: "\<And>p l. cdpListeners c p = Some l \<Longrightarrow>
      captured_connectionMap l < length (mapObjects c)"
    and inj: "\<And>p q l l'. cdpListeners c p = Some l \<Longrightarrow> cdpListeners c q = Some l' \<Longrightarrow>
      captured_connectionMap l = captured_connectionMap l' \<Longrightarrow> p = q"
    unfolding ws_refs_ok_def by blast+
  have 1: "ws_refs_ok c'"
    using assms(1) unfolding ws_refs_ok_def cl len .
  have 2: "ws_unknown_ok page rid c'"
    unfolding ws_unknown_ok_def cl
  proof (intro allI impI)
    fix l assume l: "cdpListeners c page = Some l"
    with assms(2) have old: "(mapObjects c ! captured_connectionMap l) rid = None"
      unfolding ws_unknown_ok_def by blast
    show "(mapObjects c' ! captured_connectionMap l) rid = None"
    proof (cases "captured_connectionMap l = ?m")
      case True
      from inj [OF l Some True] have "page = q" .
      with assms(4) have "rid' \<noteq> rid" by simp
      with old True lt [OF Some] show ?thesis unfolding upd by simp
    next
      case False
      with old show ?thesis unfolding upd by simp
    qed
  qed
  from 1 2 show ?thesis ..
qed

lemma ws_step_refs:
  assumes "ws_refs_ok c" and "ws_unknown_ok page rid c" and "ws_step mainFrame e c = Inr c'"
    and "\<And>u ini now. e \<noteq> WebSocketCreated page rid u ini now"
  shows "ws_refs_ok c' \<and> ws_unknown_ok page rid c'"
proof (cases e)
  case (WsTargetCreated q)
  with assms(3) ws_addPage_refs [OF assms(1,2), of q] show ?thesis by auto
next
  case (WebSocketCreated q rid' u ini now)
  with assms(4) have "q \<noteq> page \<or> rid' \<noteq> rid" by auto
  with WebSocketCreated assms(3) onCreated_refs [OF assms(1,2), of q rid' u ini now c']
  show ?thesis by simp
next
  case (WebSocketFrameSent q rid' ts opc payload)
  with assms(1,2,3) show ?thesis
    by (auto simp: ws_refs_ok_def ws_unknown_ok_def onFrameSent_def onFrame_def split: option.splits)
next
  case (WebSocketFrameReceived q rid' ts opc payload)
  with assms(1,2,3) show ?thesis
    by (auto simp: ws_refs_ok_def ws_unknown_ok_def onFrameReceived_def onFrame_def
        split: option.splits)
next
  case (WebSocketClosed q rid' ts)
  with assms(1,2,3) show ?thesis
    by (auto simp: ws_refs_ok_def ws_unknown_ok_def onClosed_def split: option.splits)
next
  case (WsFrameNavigated q f)
  with assms(3) ws_split_funpow_refs [OF assms(1,2), where p = q and n = "frameNavigatedListeners c q"]
    assms(1,2)
  show ?thesis by (auto split: if_splits)
next
  case (WsTargetDestroyed q)
  with assms(1,2,3) show ?thesis
    by (auto simp: ws_refs_ok_def ws_unknown_ok_def ws_cleanupPage_def split: if_splits)
qed

lemma ws_exec_refs:
  "ws_shape_ok c \<Longrightarrow> ws_refs_ok c \<Longrightarrow> ws_unknown_ok page rid c
     \<Longrightarrow> (\<And>u ini now. WebSocketCreated page rid u ini now \<notin> set evs)
     \<Longrightarrow> \<exists>c'. ws_exec mainFrame evs c = Inr c' \<and> ws_unknown_ok page rid c'"
proof (induction evs arbitrary: c)
  case Nil
  then show ?case by simp
next
  case (Cons e evs)
  from ws_step_shape [OF Cons.prems(1), of mainFrame e]
  obtain c1 where c1: "ws_step mainFrame e c = Inr c1" "ws_shape_ok c1" by blast
  have "e \<noteq> WebSocketCreated page rid u ini now" for u ini now
    using Cons.prems(4) [of u ini now] by auto
  from ws_step_refs [OF Cons.prems(2,3) c1(1) this]
  have r: "ws_refs_ok c1" "ws_unknown_ok page rid c1" by simp_all
  have "WebSocketCreated page rid u ini now \<notin> set evs" for u ini now
    using Cons.prems(4) [of u ini now] by simp
  from Cons.IH [OF c1(2) r this] c1(1) show ?case by simp
qed

lemma newWebSocketCollector_refs:
  "ws_refs_ok newWebSocketCollector \<and> ws_unknown_ok page rid newWebSocketCollector"
  by (simp add: ws_refs_ok_def ws_unknown_ok_def newWebSocketCollector_def)

section \<open>Claims about the collectors\<close>



lemma newWebSocketCollector_shape: "ws_shape_ok newWebSocketCollector"
  by (simp add: ws_shape_ok_def newWebSocketCollector_def)


lemmas collector_eval =
  initializePage_def collect_def splitAfterNavigation_def cleanupPageDestroyed_def
  idGenerator_def createIdGenerator_def MAX_SAFE_INTEGER_def maxNavigationSaved_def
  newPageCollector_def newNetworkCollector_def network_addPage_def setupInitiatorCollection_def
  network_splitAfterNavigation_def findLastIndex_def isMainFrameNavigation_def
  ex_mainFrame_def getIdForResource_def

lemmas ws_eval =
  ws_addPage_def onCreated_def onFrameSent_def onFrameReceived_def onFrame_def onClosed_def
  ws_splitAfterNavigation_def idGenerator_def createIdGenerator_def MAX_SAFE_INTEGER_def
  newWebSocketCollector_def maxNavigationSaved_def ex_mainFrame_def


lemma default_rotation_bound:
  "(\<exists>c. exec mainFrame evs newPageCollector = Inr c \<and>
      (\<forall>p navs. storage c p = Some navs \<longrightarrow> length navs \<le> maxNavigationSaved))
   \<and> (\<exists>c. ws_exec mainFrame wevs newWebSocketCollector = Inr c \<and>
      (\<forall>p navs. ws_storage c p = Some navs \<longrightarrow> length navs \<le> maxNavigationSaved))"
  using exec_shape [OF newPageCollector_nonempty newPageCollector_bounded, of mainFrame evs]
    ws_exec_shape [OF newWebSocketCollector_shape, of mainFrame wevs]
  unfolding bounded_ok_def ws_shape_ok_def by blast

text \<open>
  Claim C2 (epoch retention bound for every collector kind, Network included). The
  default rotation truncates to \<open>maxNavigationSaved = 3\<close> navigations
  (\<open>default_rotation_bound\<close>), but the override of the Network collector never calls
  \<^verbatim>\<open>splice\<close>. After four navigations of a page, with one request before each, the
  Network collector holds five navigations, \<^verbatim>\<open>getData\<close> with preserved data returns the
  requests of the navigations at indices 3 to 0 (so the request \<^verbatim>\<open>b\<close> of a fourth
  navigation as well), and \<^verbatim>\<open>find\<close> and \<^verbatim>\<open>getById\<close> still reach the request \<^verbatim>\<open>a\<close>
  of the oldest one.
\<close>

theorem C2_network_keeps_every_navigation:
  "\<exists>c. network_exec ex_mainFrame ex_fourNavigations newNetworkCollector = Inr c \<and>
       storage c 0 = Some [[], [ex_item ''d'' 4], [ex_item ''c'' 3], [ex_item ''b'' 2],
                           [ex_item ''a'' 1]] \<and>
       getData c 0 True = Some [ex_item ''b'' 2, ex_item ''c'' 3, ex_item ''d'' 4] \<and>
       find_resource c 0 (\<lambda>item. stableIdSymbol item = Some 1) = Some (ex_item ''a'' 1) \<and>
       getById c 0 1 = Inr (ex_item ''a'' 1)"
  by (simp add: ex_fourNavigations_def collector_eval ex_plainRequest_def ex_item_def
      getData_def find_resource_def getById_def eval_nat_numeral)

lemma ex_webSocket_reachable:
  "ws_exec ex_mainFrame ex_wsEvents newWebSocketCollector = Inr ex_webSocket"
  by (simp add: ex_wsEvents_def ex_webSocket_def ex_connection_def ws_eval)

text \<open>
  Claim C3 (per-epoch scoping of the WebSocket lookup table). The rotation stores a new,
  empty map in \<^verbatim>\<open>#connectionMap\<close>, but the handlers read the map they captured when the
  page was added. After \<^verbatim>\<open>ws1\<close> is created and the page navigates, the connection is in
  the preserved navigation and the page's new map is empty; a frame-sent event for
  \<^verbatim>\<open>ws1\<close> is then not dropped: its frame is appended to the pre-navigation record, and
  a closed event sets that record's status.
\<close>

theorem C3_stale_connection_map_still_used:
  "\<exists>c c'. ws_exec ex_mainFrame (ex_wsEvents @ [WsFrameNavigated 0 0]) newWebSocketCollector = Inr c \<and>
     ws_storage c 0 = Some [[], [0]] \<and>
     connectionMap c 0 = Some 1 \<and> mapObjects c ! 1 = Map.empty \<and>
     frames (objects c ! 0) = [] \<and> status (connection (objects c ! 0)) = Open \<and>
     ws_step ex_mainFrame (WebSocketFrameSent 0 ''ws1'' 7 1 [104, 105]) c = Inr c' \<and>
     frames (objects c' ! 0) =
       [\<lparr>frame_requestId = ''ws1'', direction = Sent, timestamp = 7000, opcode = 1,
         payloadData = [104, 105]\<rparr>] \<and>
     (\<exists>c''. ws_step ex_mainFrame (WebSocketClosed 0 ''ws1'' 8) c' = Inr c'' \<and>
        status (connection (objects c'' ! 0)) = Closed)"
  by (simp add: ex_wsEvents_def ws_eval)






text \<open>
  Claim C6 (chronological ordering of allItems). After any execution of the generic
  collector, and of the WebSocket collector, from the empty collector, \<^verbatim>\<open>getData\<close> with
  preserved data returns, for every tracked page, the navigations concatenated from the
  oldest to the current one; so the items of an older navigation (index \<open>i\<close>) come before
  those of a newer one (index \<open>j < i\<close>).
\<close>

theorem C6_chronological_order:
  "(\<exists>c. exec mainFrame evs newPageCollector = Inr c \<and>
      (\<forall>p navs. storage c p = Some navs \<longrightarrow>
         getData c p True = Some (concat (rev navs)) \<and>
         (\<forall>i j. j < i \<and> i < length navs \<longrightarrow>
            (\<exists>pre mid post. concat (rev navs) = pre @ navs ! i @ mid @ navs ! j @ post))))
   \<and> (\<exists>c. ws_exec mainFrame wevs newWebSocketCollector = Inr c \<and>
      (\<forall>p navs. ws_storage c p = Some navs \<longrightarrow>
         ws_getData c p True = concat (rev navs) \<and>
         (\<forall>i j. j < i \<and> i < length navs \<longrightarrow>
            (\<exists>pre mid post. concat (rev navs) = pre @ navs ! i @ mid @ navs ! j @ post))))"
proof (rule conjI)
  from exec_shape [OF newPageCollector_nonempty newPageCollector_bounded, of mainFrame evs]
  obtain c where c: "exec mainFrame evs newPageCollector = Inr c" and b: "bounded_ok c"
    by blast
  have "getData c p True = Some (concat (rev navs))" if "storage c p = Some navs" for p navs
  proof -
    from b that have "length navs \<le> maxNavigationSaved" unfolding bounded_ok_def by blast
    with that show ?thesis by (simp add: getData_def getData_loop_eq)
  qed
  with c concat_rev_order
  show "\<exists>c. exec mainFrame evs newPageCollector = Inr c \<and>
      (\<forall>p navs. storage c p = Some navs \<longrightarrow>
         getData c p True = Some (concat (rev navs)) \<and>
         (\<forall>i j. j < i \<and> i < length navs \<longrightarrow>
            (\<exists>pre mid post. concat (rev navs) = pre @ navs ! i @ mid @ navs ! j @ post)))"
    by blast
next
  from ws_exec_shape [OF newWebSocketCollector_shape, of mainFrame wevs]
  obtain c where c: "ws_exec mainFrame wevs newWebSocketCollector = Inr c" and b: "ws_shape_ok c"
    by blast
  have "ws_getData c p True = concat (rev navs)" if "ws_storage c p = Some navs" for p navs
  proof -
    from b that have "length navs \<le> maxNavigationSaved" unfolding ws_shape_ok_def by blast
    with that show ?thesis by (simp add: ws_getData_def getData_loop_eq)
  qed
  with c concat_rev_order
  show "\<exists>c. ws_exec mainFrame wevs newWebSocketCollector = Inr c \<and>
      (\<forall>p navs. ws_storage c p = Some navs \<longrightarrow>
         ws_getData c p True = concat (rev navs) \<and>
         (\<forall>i j. j < i \<and> i < length navs \<longrightarrow>
            (\<exists>pre mid post. concat (rev navs) = pre @ navs ! i @ mid @ navs ! j @ post)))"
    by blast
qed

theorem C6_chronological_order_witness:
  "(\<exists>c. exec ex_mainFrame ex_pageEvents newPageCollector = Inr c \<and>
        storage c 0 = Some [[\<lparr>resource = ''second'', stableIdSymbol = Some 2\<rparr>,
                             \<lparr>resource = ''third'', stableIdSymbol = Some 3\<rparr>],
                            [\<lparr>resource = ''first'', stableIdSymbol = Some 1\<rparr>]] \<and>
        getData c 0 True = Some [\<lparr>resource = ''first'', stableIdSymbol = Some 1\<rparr>,
                                 \<lparr>resource = ''second'', stableIdSymbol = Some 2\<rparr>,
                                 \<lparr>resource = ''third'', stableIdSymbol = Some 3\<rparr>]) \<and>
   (\<exists>c. ws_exec ex_mainFrame ex_wsEvents2 newWebSocketCollector = Inr c \<and>
        ws_storage c 0 = Some [[1], [0]] \<and>
        ws_getData c 0 True = [0, 1] \<and>
        map (\<lambda>r. requestId (connection (objects c ! r))) (ws_getData c 0 True) = [''ws1'', ''ws2''])"
  using C6_chronological_order [of ex_mainFrame ex_pageEvents ex_wsEvents2]
  by (simp add: ex_pageEvents_def ex_pageEvents1_def ex_pageEvents2_def ex_wsEvents2_def
      ex_wsEvents_def collector_eval ws_eval getData_def ws_getData_def eval_nat_numeral)


text \<open>
  The guard of the handlers: when the connection ID of a frame-sent, frame-received or
  closed event has no entry in the connection map that the page's handlers captured, the
  event is handled without error and the collector is the same afterwards. That is the
  case, after any execution from the empty collector, for every connection ID for which
  the page never had a created event.
\<close>

lemma absent_from_captured_map_ignored:
  "((\<forall>l. cdpListeners c page = Some l \<longrightarrow> (mapObjects c ! captured_connectionMap l) rid = None)
      \<longrightarrow> ws_step mainFrame (WebSocketFrameSent page rid ts opc payload) c = Inr c \<and>
          ws_step mainFrame (WebSocketFrameReceived page rid ts opc payload) c = Inr c \<and>
          ws_step mainFrame (WebSocketClosed page rid ts) c = Inr c)
   \<and> ((\<forall>u ini now. WebSocketCreated page rid u ini now \<notin> set evs)
      \<longrightarrow> (\<exists>c'. ws_exec mainFrame evs newWebSocketCollector = Inr c' \<and>
            ws_step mainFrame (WebSocketFrameSent page rid ts opc payload) c' = Inr c' \<and>
            ws_step mainFrame (WebSocketFrameReceived page rid ts opc payload) c' = Inr c' \<and>
            ws_step mainFrame (WebSocketClosed page rid ts) c' = Inr c'))"
proof (intro conjI impI)
  assume a: "\<forall>l. cdpListeners c page = Some l \<longrightarrow> (mapObjects c ! captured_connectionMap l) rid = None"
  then show "ws_step mainFrame (WebSocketFrameSent page rid ts opc payload) c = Inr c"
    and "ws_step mainFrame (WebSocketFrameReceived page rid ts opc payload) c = Inr c"
    and "ws_step mainFrame (WebSocketClosed page rid ts) c = Inr c"
    by (cases "cdpListeners c page";
        simp add: onFrameSent_def onFrameReceived_def onFrame_def onClosed_def)+
next
  assume a: "\<forall>u ini now. WebSocketCreated page rid u ini now \<notin> set evs"
  from newWebSocketCollector_refs [of page rid]
  have r: "ws_refs_ok newWebSocketCollector" "ws_unknown_ok page rid newWebSocketCollector"
    by simp_all
  from ws_exec_refs [OF newWebSocketCollector_shape r, of evs mainFrame] a
  obtain c' where c': "ws_exec mainFrame evs newWebSocketCollector = Inr c'"
    and u: "ws_unknown_ok page rid c'" by blast
  from u have "ws_step mainFrame (WebSocketFrameSent page rid ts opc payload) c' = Inr c' \<and>
        ws_step mainFrame (WebSocketFrameReceived page rid ts opc payload) c' = Inr c' \<and>
        ws_step mainFrame (WebSocketClosed page rid ts) c' = Inr c'"
    unfolding ws_unknown_ok_def
    by (cases "cdpListeners c' page")
       (simp_all add: onFrameSent_def onFrameReceived_def onFrame_def onClosed_def)
  with c' show "\<exists>c'. ws_exec mainFrame evs newWebSocketCollector = Inr c' \<and>
            ws_step mainFrame (WebSocketFrameSent page rid ts opc payload) c' = Inr c' \<and>
            ws_step mainFrame (WebSocketFrameReceived page rid ts opc payload) c' = Inr c' \<and>
            ws_step mainFrame (WebSocketClosed page rid ts) c' = Inr c'"
    by blast
qed


lemma absent_from_captured_map_ignored_example:
  "ws_step ex_mainFrame (WebSocketFrameSent 0 ''ws9'' 1 1 [104, 105]) ex_webSocket = Inr ex_webSocket \<and>
   ws_step ex_mainFrame (WebSocketFrameReceived 0 ''ws9'' 1 1 [104, 105]) ex_webSocket = Inr ex_webSocket \<and>
   ws_step ex_mainFrame (WebSocketClosed 0 ''ws9'' 1) ex_webSocket = Inr ex_webSocket"
  by (simp add: ex_webSocket_def ws_eval)

text \<open>
  Claim C9 (WebSocket events of unknown connections) says that an event whose connection
  ID has no entry in the page's connection lookup table leaves every existing connection's
  frame list and status unchanged. The page's table is \<^verbatim>\<open>this.#connectionMap.get(page)\<close>,
  which the rotation replaces with a new, empty map; the handlers go on reading the map
  they captured. After \<^verbatim>\<open>ws1\<close> is created and the page navigates, the page's table has
  no entry for \<^verbatim>\<open>ws1\<close>. Events for \<^verbatim>\<open>ws1\<close> then raise no error and create no record
  (the storage and the number of connection objects stay the same), but a frame-sent and
  a frame-received event each append a frame to the existing connection, and a closed
  event sets its status and close time.
\<close>

theorem C9_events_after_rotation_change_connection:
  "\<exists>c c1 c2 c3.
     ws_exec ex_mainFrame (ex_wsEvents @ [WsFrameNavigated 0 0]) newWebSocketCollector = Inr c \<and>
     connectionMap c 0 = Some 1 \<and> (mapObjects c ! 1) ''ws1'' = None \<and>
     ws_storage c 0 = Some [[], [0]] \<and> length (objects c) = 1 \<and>
     frames (objects c ! 0) = [] \<and>
     status (connection (objects c ! 0)) = Open \<and> closedAt (connection (objects c ! 0)) = None \<and>
     ws_step ex_mainFrame (WebSocketFrameSent 0 ''ws1'' 7 1 [104, 105]) c = Inr c1 \<and>
     ws_storage c1 0 = Some [[], [0]] \<and> length (objects c1) = 1 \<and>
     length (frames (objects c1 ! 0)) = 1 \<and>
     direction (hd (frames (objects c1 ! 0))) = Sent \<and>
     ws_step ex_mainFrame (WebSocketFrameReceived 0 ''ws1'' 7 2 [65, 65, 65, 65]) c = Inr c2 \<and>
     ws_storage c2 0 = Some [[], [0]] \<and> length (objects c2) = 1 \<and>
     length (frames (objects c2 ! 0)) = 1 \<and>
     direction (hd (frames (objects c2 ! 0))) = Received \<and>
     ws_step ex_mainFrame (WebSocketClosed 0 ''ws1'' 8) c = Inr c3 \<and>
     ws_storage c3 0 = Some [[], [0]] \<and> length (objects c3) = 1 \<and>
     status (connection (objects c3 ! 0)) = Closed \<and>
     closedAt (connection (objects c3 ! 0)) = Some 8000"
  by (simp add: ex_wsEvents_def ws_eval)

section \<open>The analysis groups the frames\<close>

subsection \<open>map_set\<close>

lemma map_of_map_set: "map_of (map_set k v m) = (map_of m)(k \<mapsto> v)"
  by (induction m) auto

lemma map_set_append: "k \<notin> fst ` set m \<Longrightarrow> map_set k v m = m @ [(k, v)]"
  by (induction m) auto

lemma fst_set_map_set: "fst ` set (map_set k v m) = insert k (fst ` set m)"
  using arg_cong [OF map_of_map_set [of k v m], of dom]
  by (simp add: dom_map_of_conv_image_fst)

lemma distinct_map_set: "distinct (map fst m) \<Longrightarrow> distinct (map fst (map_set k v m))"
proof (induction m)
  case Nil
  then show ?case by simp
next
  case (Cons e m)
  then show ?case
    using fst_set_map_set [of k v m] by (cases e) auto
qed

subsection \<open>addFrame\<close>

lemma addFrame_frameKey:
  "addFrame m f i =
     (let m1 = (if map_of m (frameKey f) = None
                then map_set (frameKey f)
                       \<lparr>g_direction = direction f,
                        g_head4B = getHead4B (payloadData f) (opcode f),
                        g_sizeCategory = getSizeCategory (int (length (payloadData f))),
                        g_indices = [],
                        g_minSize = length (payloadData f), g_maxSize = length (payloadData f)\<rparr> m
                else m)
      in case map_of m1 (frameKey f) of
           None \<Rightarrow> m1
         | Some g \<Rightarrow>
             map_set (frameKey f)
               (g\<lparr>g_indices := g_indices g @ [i],
                  g_minSize := min (g_minSize g) (length (payloadData f)),
                  g_maxSize := max (g_maxSize g) (length (payloadData f))\<rparr>) m1)"
  unfolding addFrame_def frameKey_def Let_def by (rule refl)

lemma map_of_addFrame:
  "map_of (addFrame m f i) =
     (map_of m)(frameKey f \<mapsto> addedEntry (map_of m (frameKey f)) f i)"
  by (cases "map_of m (frameKey f)")
     (simp_all add: addFrame_frameKey map_of_map_set addedEntry_def)

lemma distinct_addFrame: "distinct (map fst m) \<Longrightarrow> distinct (map fst (addFrame m f i))"
  by (simp add: addFrame_frameKey Let_def distinct_map_set split: option.splits)

subsection \<open>Keys determine the size category\<close>

lemma sizeCategoryString_no_colon: "CHR '':'' \<notin> set (sizeCategoryString s)"
  by (cases s) (simp_all add: sizeCategoryString_def)

lemma sizeCategoryString_inj: "sizeCategoryString s = sizeCategoryString t \<Longrightarrow> s = t"
  by (cases s; cases t) (simp_all add: sizeCategoryString_def)

lemma takeWhile_stop:
  "\<forall>x \<in> set xs. P x \<Longrightarrow> \<not> P y \<Longrightarrow> takeWhile P (xs @ y # ys) = xs"
  by (induction xs) simp_all

lemma key_suffix:
  assumes "CHR '':'' \<notin> set c"
  shows "rev (takeWhile (\<lambda>ch. ch \<noteq> CHR '':'') (rev (a @ '':'' @ b @ '':'' @ c))) = c"
proof -
  have "rev (a @ '':'' @ b @ '':'' @ c) = rev c @ CHR '':'' # (rev ('':'' @ b) @ rev a)"
    by simp
  moreover have "\<forall>ch \<in> set (rev c). ch \<noteq> CHR '':''" using assms by auto
  ultimately have "takeWhile (\<lambda>ch. ch \<noteq> CHR '':'') (rev (a @ '':'' @ b @ '':'' @ c)) = rev c"
    by (simp only: takeWhile_stop simp_thms)
  then show ?thesis by simp
qed

lemma frameKey_sizeCategory:
  assumes "frameKey f = frameKey f'"
  shows "getSizeCategory (int (length (payloadData f))) =
         getSizeCategory (int (length (payloadData f')))"
proof -
  let ?c = "\<lambda>f. sizeCategoryString (getSizeCategory (int (length (payloadData f))))"
  have "?c f = rev (takeWhile (\<lambda>ch. ch \<noteq> CHR '':'') (rev (frameKey f)))"
    unfolding frameKey_def by (rule key_suffix [symmetric]) (rule sizeCategoryString_no_colon)
  also have "\<dots> = rev (takeWhile (\<lambda>ch. ch \<noteq> CHR '':'') (rev (frameKey f')))"
    using assms by simp
  also have "\<dots> = ?c f'"
    unfolding frameKey_def by (rule key_suffix) (rule sizeCategoryString_no_colon)
  finally show ?thesis by (rule sizeCategoryString_inj)
qed

subsection \<open>The grouping loop\<close>

lemma grouped_empty: "grouped [] []"
  by (simp add: grouped_def)

lemma filter_upt_snoc:
  "filter (\<lambda>i. key ((fs @ [f]) ! i) = k) [0..<Suc (length fs)] =
     filter (\<lambda>i. key (fs ! i) = k) [0..<length fs] @ (if key f = k then [length fs] else [])"
proof -
  have "filter (\<lambda>i. key ((fs @ [f]) ! i) = k) [0..<length fs] =
        filter (\<lambda>i. key (fs ! i) = k) [0..<length fs]"
    by (rule filter_cong) (simp_all add: nth_append)
  then show ?thesis by simp
qed

lemma grouped_addFrame:
  assumes "grouped fs m"
  shows "grouped (fs @ [f]) (addFrame m f (length fs))"
proof -
  let ?k = "frameKey f" and ?n = "length fs"
  let ?cat = "\<lambda>f. getSizeCategory (int (length (payloadData f)))"
  from assms have dist: "distinct (map fst m)"
    and ent: "\<And>k g. map_of m k = Some g \<Longrightarrow>
                g_indices g = filter (\<lambda>i. frameKey (fs ! i) = k) [0..<?n] \<and> g_indices g \<noteq> [] \<and>
                (\<forall>i \<in> set (g_indices g). g_sizeCategory g = ?cat (fs ! i))"
    and cov: "\<And>i. i < ?n \<Longrightarrow> map_of m (frameKey (fs ! i)) \<noteq> None"
    unfolding grouped_def by blast+
  have new: "g_indices (addedEntry (map_of m ?k) f ?n) =
               filter (\<lambda>i. frameKey ((fs @ [f]) ! i) = ?k) [0..<length (fs @ [f])] \<and>
             g_indices (addedEntry (map_of m ?k) f ?n) \<noteq> [] \<and>
             (\<forall>i \<in> set (g_indices (addedEntry (map_of m ?k) f ?n)).
                g_sizeCategory (addedEntry (map_of m ?k) f ?n) = ?cat ((fs @ [f]) ! i))"
  proof (cases "map_of m ?k")
    case None
    have "frameKey (fs ! i) \<noteq> ?k" if "i < ?n" for i
      using cov [OF that] None by auto
    then have "filter (\<lambda>i. frameKey (fs ! i) = ?k) [0..<?n] = []"
      by (simp add: filter_empty_conv)
    with None show ?thesis
      by (simp add: addedEntry_def filter_upt_snoc [of frameKey] del: upt_Suc)
  next
    case (Some g)
    note e = ent [OF Some]
    from e have e1: "g_indices g = filter (\<lambda>i. frameKey (fs ! i) = ?k) [0..<?n]"
      and e2: "g_indices g \<noteq> []"
      and e3: "\<And>i. i \<in> set (g_indices g) \<Longrightarrow> g_sizeCategory g = ?cat (fs ! i)"
      by blast+
    from e2 have "hd (g_indices g) \<in> set (g_indices g)" by (rule hd_in_set)
    then obtain i0 where i0: "i0 \<in> set (g_indices g)" ..
    have lt: "i < ?n" if "i \<in> set (g_indices g)" for i
      using that unfolding e1 by simp
    from i0 have "frameKey (fs ! i0) = ?k" unfolding e1 by simp
    from frameKey_sizeCategory [OF this] e3 [OF i0]
    have cat: "g_sizeCategory g = ?cat f" by simp
    have a: "g_indices g @ [?n] =
             filter (\<lambda>i. frameKey ((fs @ [f]) ! i) = ?k) [0..<Suc ?n]"
      by (simp only: filter_upt_snoc [of frameKey] e1 simp_thms if_True)
    have b: "g_sizeCategory g = ?cat ((fs @ [f]) ! i)" if "i \<in> set (g_indices g @ [?n])" for i
    proof (cases "i = ?n")
      case True
      with cat show ?thesis by simp
    next
      case False
      with that have "i \<in> set (g_indices g)" by simp
      from e3 [OF this] lt [OF this] show ?thesis by (simp add: nth_append)
    qed
    have sel: "g_indices (addedEntry (Some g) f ?n) = g_indices g @ [?n]"
      "g_sizeCategory (addedEntry (Some g) f ?n) = g_sizeCategory g"
      by (simp_all add: addedEntry_def)
    show ?thesis
      unfolding Some sel using a b by simp
  qed
  have old: "g_indices g = filter (\<lambda>i. frameKey ((fs @ [f]) ! i) = k) [0..<length (fs @ [f])] \<and>
             g_indices g \<noteq> [] \<and>
             (\<forall>i \<in> set (g_indices g). g_sizeCategory g = ?cat ((fs @ [f]) ! i))"
    if "map_of m k = Some g" and "k \<noteq> ?k" for k g
  proof -
    note e = ent [OF that(1)]
    from e have e1: "g_indices g = filter (\<lambda>i. frameKey (fs ! i) = k) [0..<?n]"
      and e2: "g_indices g \<noteq> []"
      and e3: "\<And>i. i \<in> set (g_indices g) \<Longrightarrow> g_sizeCategory g = ?cat (fs ! i)"
      by blast+
    have lt: "i < ?n" if "i \<in> set (g_indices g)" for i
      using that unfolding e1 by simp
    from that(2) have ne: "frameKey f \<noteq> k" by simp
    have a: "g_indices g = filter (\<lambda>i. frameKey ((fs @ [f]) ! i) = k) [0..<Suc ?n]"
      by (simp only: filter_upt_snoc [of frameKey] e1 [symmetric] ne simp_thms if_False append_Nil2)
    have b: "g_sizeCategory g = ?cat ((fs @ [f]) ! i)" if "i \<in> set (g_indices g)" for i
      using e3 [OF that] lt [OF that] by (simp add: nth_append)
    from a e2 b show ?thesis by simp
  qed
  have cov': "map_of (addFrame m f ?n) (frameKey ((fs @ [f]) ! i)) \<noteq> None"
    if "i < length (fs @ [f])" for i
    using that cov [of i] by (cases "i = ?n") (auto simp: map_of_addFrame nth_append)
  show ?thesis
    unfolding grouped_def
  proof (intro conjI allI impI)
    show "distinct (map fst (addFrame m f ?n))" using dist by (rule distinct_addFrame)
  next
    fix k g assume "map_of (addFrame m f ?n) k = Some g"
    then have "(k = ?k \<and> g = addedEntry (map_of m ?k) f ?n) \<or> (k \<noteq> ?k \<and> map_of m k = Some g)"
      by (auto simp: map_of_addFrame split: if_splits)
    with new old
    have r: "g_indices g = filter (\<lambda>i. frameKey ((fs @ [f]) ! i) = k) [0..<length (fs @ [f])] \<and>
          g_indices g \<noteq> [] \<and>
          (\<forall>i \<in> set (g_indices g). g_sizeCategory g = ?cat ((fs @ [f]) ! i))"
      by blast
    from r show "g_indices g = filter (\<lambda>i. frameKey ((fs @ [f]) ! i) = k) [0..<length (fs @ [f])]"
      by blast
    from r show "g_indices g \<noteq> []" by blast
    from r show "\<forall>i \<in> set (g_indices g). g_sizeCategory g = ?cat ((fs @ [f]) ! i)" by blast
  next
    fix i assume "i < length (fs @ [f])"
    then show "map_of (addFrame m f ?n) (frameKey ((fs @ [f]) ! i)) \<noteq> None" by (rule cov')
  qed
qed

lemma grouped_groupFrames:
  "grouped pre m \<Longrightarrow> grouped (pre @ fs) (groupFrames m (length pre) fs)"
proof (induction fs arbitrary: pre m)
  case Nil
  then show ?case by simp
next
  case (Cons f fs)
  from grouped_addFrame [OF Cons.prems, of f]
  have "grouped (pre @ [f]) (addFrame m f (length pre))" .
  from Cons.IH [OF this] show ?case by simp
qed

lemma grouped_all: "grouped fs (groupFrames [] 0 fs)"
  using grouped_groupFrames [OF grouped_empty, of fs] by simp

subsection \<open>generateGroupId\<close>

lemma generateGroupId_loop_append:
  "generateGroupId_loop n ident = generateGroupId_loop n [] @ ident"
proof (induction "nat n" arbitrary: n ident rule: less_induct)
  case less
  show ?case
  proof (cases "0 \<le> n div 26 - 1")
    case True
    then have "nat (n div 26 - 1) < nat n" by linarith
    note ih = less.hyps [OF this]
    have "generateGroupId_loop n ident =
          generateGroupId_loop (n div 26 - 1) (char_of (65 + n mod 26) # ident)"
      using True by (subst generateGroupId_loop.simps) simp
    also have "\<dots> = generateGroupId_loop (n div 26 - 1) [] @ char_of (65 + n mod 26) # ident"
      by (rule ih)
    also have "\<dots> = (generateGroupId_loop (n div 26 - 1) [] @ [char_of (65 + n mod 26)]) @ ident"
      by simp
    also have "generateGroupId_loop (n div 26 - 1) [] @ [char_of (65 + n mod 26)] =
               generateGroupId_loop (n div 26 - 1) [char_of (65 + n mod 26)]"
      by (rule ih [symmetric])
    also have "\<dots> = generateGroupId_loop n []"
      using True by (subst (2) generateGroupId_loop.simps) simp
    finally show ?thesis .
  next
    case False
    then show ?thesis
      by (subst generateGroupId_loop.simps, subst (2) generateGroupId_loop.simps) simp
  qed
qed

lemma generateGroupId_rec:
  "generateGroupId n =
     (if n < 26 then [char_of (65 + int n)]
      else generateGroupId (n div 26 - 1) @ [char_of (65 + int (n mod 26))])"
proof (cases "n < 26")
  case True
  then have "\<not> 0 \<le> int n div 26 - 1" by simp
  with True show ?thesis
    unfolding generateGroupId_def by (subst generateGroupId_loop.simps) simp
next
  case False
  then have ge: "0 \<le> int n div 26 - 1" by linarith
  have idx: "int n div 26 - 1 = int (n div 26 - 1)"
    using False by (simp add: zdiv_int of_nat_diff)
  have "generateGroupId n = generateGroupId_loop (int n div 26 - 1) [char_of (65 + int n mod 26)]"
    unfolding generateGroupId_def using ge by (subst generateGroupId_loop.simps) simp
  also have "\<dots> = generateGroupId_loop (int n div 26 - 1) [] @ [char_of (65 + int n mod 26)]"
    by (rule generateGroupId_loop_append)
  finally show ?thesis
    using False by (simp add: generateGroupId_def idx zmod_int)
qed

lemma groupIdValue_snoc: "groupIdValue (s @ [ch]) = 26 * groupIdValue s + (of_char ch - 64)"
  by (simp add: groupIdValue_def)

lemma groupIdValue_generateGroupId: "groupIdValue (generateGroupId n) = int n + 1"
proof (induction n rule: less_induct)
  case (less n)
  show ?case
  proof (cases "n < 26")
    case True
    then have "(65 + int n) mod 256 = 65 + int n" by simp
    with True show ?thesis
      by (subst generateGroupId_rec) (simp add: groupIdValue_def)
  next
    case False
    then have "n div 26 - 1 < n" by simp
    from less.IH [OF this]
    have ih: "groupIdValue (generateGroupId (n div 26 - 1)) = int (n div 26 - 1) + 1" .
    have m: "(65 + int (n mod 26)) mod 256 = 65 + int (n mod 26)"
      by simp
    have "int (n div 26 - 1) + 1 = int (n div 26)"
      using False by (simp add: of_nat_diff)
    moreover have "int n = 26 * int (n div 26) + int (n mod 26)"
      by (metis mult_div_mod_eq of_nat_add of_nat_mult of_nat_numeral)
    ultimately show ?thesis
      using False ih m by (subst generateGroupId_rec) (simp add: groupIdValue_snoc)
  qed
qed

lemma generateGroupId_inj:
  assumes "generateGroupId i = generateGroupId j"
  shows "i = j"
proof -
  have "int i + 1 = groupIdValue (generateGroupId i)"
    by (rule groupIdValue_generateGroupId [symmetric])
  also have "\<dots> = groupIdValue (generateGroupId j)"
    by (simp only: assms)
  also have "\<dots> = int j + 1"
    by (rule groupIdValue_generateGroupId)
  finally show ?thesis by linarith
qed

subsection \<open>Sorting and numbering the groups\<close>

lemma distinct_keys_sortByCount:
  "distinct (map fst m) \<Longrightarrow> distinct (map fst (sortByCount m))"
  by (simp add: sortByCount_def distinct_map)

lemma set_sortByCount: "set (sortByCount m) = set m"
  by (simp add: sortByCount_def)

lemma sorted_sortByCount:
  "sorted_wrt (\<lambda>a b. length (g_indices (snd b)) \<le> length (g_indices (snd a))) (sortByCount m)"
proof -
  have "sorted (map (\<lambda>e. - int (length (g_indices (snd e)))) (sortByCount m))"
    unfolding sortByCount_def by (rule sorted_sort_key)
  then show ?thesis by (simp add: sorted_map) 
qed

lemma buildGroups_eq:
  assumes "\<And>k j. k \<in> fst ` set gti \<Longrightarrow> idx \<le> j \<Longrightarrow> k \<noteq> generateGroupId j"
  shows "buildGroups es idx groups gti =
           (groups @ map (\<lambda>(i, e). groupOf i e) (zip [idx..<idx + length es] es),
            gti @ map (\<lambda>(i, e). (generateGroupId i, g_indices (snd e)))
                    (zip [idx..<idx + length es] es))"
  using assms
proof (induction es arbitrary: idx groups gti)
  case Nil
  show ?case by simp
next
  case (Cons e es)
  have notin: "generateGroupId idx \<notin> fst ` set gti"
    using Cons.prems [of "generateGroupId idx" idx] by auto
  let ?gti = "gti @ [(generateGroupId idx, g_indices (snd e))]"
  have next_ok: "k \<noteq> generateGroupId j" if "k \<in> fst ` set ?gti" and "Suc idx \<le> j" for k j
  proof (cases "k = generateGroupId idx")
    case True
    with that(2) show ?thesis using generateGroupId_inj [of idx j] by auto
  next
    case False
    with that(1) have "k \<in> fst ` set gti" by auto
    from Cons.prems [OF this, of j] that(2) show ?thesis by simp
  qed
  have "idx < idx + length (e # es)" by simp
  then have "[idx..<idx + length (e # es)] = idx # [Suc idx..<idx + length (e # es)]"
    by (rule upt_conv_Cons)
  then have upt: "[idx..<idx + length (e # es)] = idx # [Suc idx..<Suc idx + length es]"
    by simp
  have "buildGroups (e # es) idx groups gti =
        buildGroups es (Suc idx) (groups @ [groupOf idx e]) ?gti"
    by (simp add: Let_def groupOf_def map_set_append [OF notin])
  also have "\<dots> =
     ((groups @ [groupOf idx e]) @ map (\<lambda>(i, e). groupOf i e) (zip [Suc idx..<Suc idx + length es] es),
      ?gti @ map (\<lambda>(i, e). (generateGroupId i, g_indices (snd e)))
                (zip [Suc idx..<Suc idx + length es] es))"
    by (rule Cons.IH) (rule next_ok)
  finally show ?case by (simp only: upt) simp
qed

lemma analyze_groups:
  "ts_groups (analyzeWebSocketFramesV2 frs wsid u) =
     map (\<lambda>(i, e). groupOf i e)
       (zip [0..<length (sortByCount (groupFrames [] 0 frs))] (sortByCount (groupFrames [] 0 frs)))"
  and analyze_groupToIndices:
  "ts_groupToIndices (analyzeWebSocketFramesV2 frs wsid u) =
     map (\<lambda>(i, e). (generateGroupId i, g_indices (snd e)))
       (zip [0..<length (sortByCount (groupFrames [] 0 frs))] (sortByCount (groupFrames [] 0 frs)))"
  and analyze_totalFrames:
  "ts_totalFrames (analyzeWebSocketFramesV2 frs wsid u) = length frs"
  using buildGroups_eq [of "[]" 0 "sortByCount (groupFrames [] 0 frs)" "[]"]
  by (simp_all add: analyzeWebSocketFramesV2_def Let_def)

lemma map_zip_upt_fst: "map (\<lambda>(i, e). f i) (zip [0..<length es] es) = map f [0..<length es]"
  by (rule nth_equalityI) simp_all

lemma map_zip_upt_snd: "map (\<lambda>(i, e). f e) (zip [0..<length es] es) = map f es"
  by (rule nth_equalityI) simp_all

lemma sorted_entries:
  assumes "es = sortByCount (groupFrames [] 0 frs)"
  shows "distinct (map fst es)"
    and "\<And>k g. (k, g) \<in> set es \<Longrightarrow>
            g_indices g = filter (\<lambda>i. frameKey (frs ! i) = k) [0..<length frs] \<and>
            g_indices g \<noteq> [] \<and>
            (\<forall>i \<in> set (g_indices g).
               g_sizeCategory g = getSizeCategory (int (length (payloadData (frs ! i)))))"
    and "\<And>i. i < length frs \<Longrightarrow> frameKey (frs ! i) \<in> fst ` set es"
proof -
  let ?m = "groupFrames [] 0 frs"
  note g = grouped_all [of frs, unfolded grouped_def]
  from g have d: "distinct (map fst ?m)" by blast
  then show "distinct (map fst es)" unfolding assms by (rule distinct_keys_sortByCount)
  show "g_indices g = filter (\<lambda>i. frameKey (frs ! i) = k) [0..<length frs] \<and>
        g_indices g \<noteq> [] \<and>
        (\<forall>i \<in> set (g_indices g).
           g_sizeCategory g = getSizeCategory (int (length (payloadData (frs ! i)))))"
    if "(k, g) \<in> set es" for k g
  proof -
    from that have "(k, g) \<in> set ?m" unfolding assms set_sortByCount .
    with d have "map_of ?m k = Some g" by simp
    with g show ?thesis by blast
  qed
  show "frameKey (frs ! i) \<in> fst ` set es" if "i < length frs" for i
  proof -
    from g that have "map_of ?m (frameKey (frs ! i)) \<noteq> None" by blast
    then show ?thesis unfolding assms set_sortByCount by (simp add: map_of_eq_None_iff)
  qed
qed

lemma distinct_concat_filter:
  "distinct ks \<Longrightarrow> distinct xs
     \<Longrightarrow> distinct (concat (map (\<lambda>k. filter (\<lambda>i. key i = k) xs) ks))"
  by (induction ks) auto

lemma distinct_concat_disjoint:
  "distinct (concat xs) \<Longrightarrow> a < b \<Longrightarrow> b < length xs \<Longrightarrow> set (xs ! a) \<inter> set (xs ! b) = {}"
proof (induction xs arbitrary: a b)
  case Nil
  then show ?case by simp
next
  case (Cons x xs)
  from Cons.prems obtain b' where b: "b = Suc b'" "b' < length xs" by (cases b) auto
  show ?case
  proof (cases a)
    case 0
    from b have "xs ! b' \<in> set xs" by simp
    then have "set (xs ! b') \<subseteq> set (concat xs)" by auto
    with Cons.prems(1) 0 b show ?thesis by auto
  next
    case (Suc a')
    with Cons.prems b have "a' < b'" by simp
    from Cons.IH [OF _ this b(2)] Cons.prems(1) Suc b show ?thesis by simp
  qed
qed

lemma index_lists:
  assumes "es = sortByCount (groupFrames [] 0 frs)"
  shows "map (\<lambda>e. g_indices (snd e)) es =
         map (\<lambda>k. filter (\<lambda>i. frameKey (frs ! i) = k) [0..<length frs]) (map fst es)"
proof -
  have "g_indices (snd e) = filter (\<lambda>i. frameKey (frs ! i) = fst e) [0..<length frs]"
    if "e \<in> set es" for e
    using sorted_entries(2) [OF assms, of "fst e" "snd e"] that by simp
  then show ?thesis by (simp cong: map_cong)
qed


section \<open>Claims about the traffic fingerprint engine\<close>

lemma ex_frames_analysis:
  "ts_groupToIndices (analyzeWebSocketFramesV2 ex_frames 1 ''wss://example'') =
     [(''A'', [1, 2, 4]), (''B'', [0, 3])] \<and>
   map mg_id (ts_groups (analyzeWebSocketFramesV2 ex_frames 1 ''wss://example'')) = [''A'', ''B''] \<and>
   map mg_count (ts_groups (analyzeWebSocketFramesV2 ex_frames 1 ''wss://example'')) = [3, 2] \<and>
   map mg_sizeCategory (ts_groups (analyzeWebSocketFramesV2 ex_frames 1 ''wss://example'')) = [Tiny, Tiny] \<and>
   map mg_sampleIndices (ts_groups (analyzeWebSocketFramesV2 ex_frames 1 ''wss://example'')) =
     [[1, 2, 4], [0, 3]] \<and>
   ts_totalFrames (analyzeWebSocketFramesV2 ex_frames 1 ''wss://example'') = 5"
  by code_simp

lemma ex_frames27_analysis:
  "length (ts_groups (analyzeWebSocketFramesV2 ex_frames27 1 ''wss://example'')) = 27 \<and>
   mg_id (ts_groups (analyzeWebSocketFramesV2 ex_frames27 1 ''wss://example'') ! 0) = ''A'' \<and>
   mg_id (ts_groups (analyzeWebSocketFramesV2 ex_frames27 1 ''wss://example'') ! 25) = ''Z'' \<and>
   mg_id (ts_groups (analyzeWebSocketFramesV2 ex_frames27 1 ''wss://example'') ! 26) = ''AA''"
  by code_simp

lemma ex_binaryFrame_analysis:
  "ts_groupToIndices (analyzeWebSocketFramesV2 [ex_binaryFrame] 1 ''wss://example'') = [(''A'', [0])] \<and>
   map mg_id (ts_groups (analyzeWebSocketFramesV2 [ex_binaryFrame] 1 ''wss://example'')) = [''A''] \<and>
   map mg_sizeCategory (ts_groups (analyzeWebSocketFramesV2 [ex_binaryFrame] 1 ''wss://example'')) =
     [Small] \<and>
   length (payloadData ex_binaryFrame) = 32"
  by code_simp

text \<open>
  Claim C7 (size bucket correctness) says that the bucket of a frame comes from the byte
  length of its payload, also for binary frames, whose payload arrives base64-encoded.
  The engine takes \<^verbatim>\<open>frame.payloadData.length\<close>, the length of the string as delivered,
  and nowhere decodes a payload to measure it. A binary frame of 24 bytes arrives as 32
  base64 characters: its byte length is in the bucket tiny, the engine puts it in small.
\<close>

theorem C7_size_bucket_from_byte_length_counterexample:
  "opcode ex_binaryFrame = 2 \<and>
   base64ByteLength (payloadData ex_binaryFrame) = Some 24 \<and>
   getSizeCategory 24 = Tiny \<and>
   map mg_sizeCategory (ts_groups (analyzeWebSocketFramesV2 [ex_binaryFrame] 1 ''wss://example'')) =
     [Small] \<and>
   mg_sizeCategory (hd (ts_groups (analyzeWebSocketFramesV2 [ex_binaryFrame] 1 ''wss://example''))) \<noteq>
     getSizeCategory 24"
  by code_simp


text \<open>
  Claim C7 as amended: for every frame, the group that holds the frame's index has the
  size bucket computed from the length of the frame's \<^verbatim>\<open>payloadData\<close> string (its number
  of UTF-16 code units; for a binary frame the length of the base64 text), with the fixed
  thresholds: tiny below 32, small below 128, medium below 512, large below 2048, xlarge
  from 2048 on.
\<close>

theorem C7_size_bucket_from_string_length:
  fixes frs :: "webSocketFrame list" and wsid :: int and u :: string
  defines "r \<equiv> analyzeWebSocketFramesV2 frs wsid u"
  shows "(\<forall>i < length frs. \<exists>j < length (ts_groups r).
            fst (ts_groupToIndices r ! j) = mg_id (ts_groups r ! j) \<and>
            i \<in> set (snd (ts_groupToIndices r ! j)) \<and>
            mg_sizeCategory (ts_groups r ! j) =
              getSizeCategory (int (length (payloadData (frs ! i))))) \<and>
         (\<forall>n :: int.
            (n < 32 \<longrightarrow> getSizeCategory n = Tiny) \<and>
            (32 \<le> n \<and> n < 128 \<longrightarrow> getSizeCategory n = Small) \<and>
            (128 \<le> n \<and> n < 512 \<longrightarrow> getSizeCategory n = Medium) \<and>
            (512 \<le> n \<and> n < 2048 \<longrightarrow> getSizeCategory n = Large) \<and>
            (2048 \<le> n \<longrightarrow> getSizeCategory n = XLarge))"
proof (rule conjI)
  define es where "es = sortByCount (groupFrames [] 0 frs)"
  note E = sorted_entries [OF es_def]
  have gti: "ts_groupToIndices r =
      map (\<lambda>(i, e). (generateGroupId i, g_indices (snd e))) (zip [0..<length es] es)"
    unfolding r_def es_def by (rule analyze_groupToIndices)
  have gs: "ts_groups r = map (\<lambda>(i, e). groupOf i e) (zip [0..<length es] es)"
    unfolding r_def es_def by (rule analyze_groups)
  show "\<forall>i < length frs. \<exists>j < length (ts_groups r).
            fst (ts_groupToIndices r ! j) = mg_id (ts_groups r ! j) \<and>
            i \<in> set (snd (ts_groupToIndices r ! j)) \<and>
            mg_sizeCategory (ts_groups r ! j) =
              getSizeCategory (int (length (payloadData (frs ! i))))"
  proof (intro allI impI)
    fix i assume i: "i < length frs"
    from E(3) [OF i] obtain g where kg: "(frameKey (frs ! i), g) \<in> set es" by auto
    then obtain j where j: "j < length es" "es ! j = (frameKey (frs ! i), g)"
      by (auto simp: in_set_conv_nth)
    note e = E(2) [OF kg]
    from e i have mem: "i \<in> set (g_indices g)" by simp
    with e have cat: "g_sizeCategory g = getSizeCategory (int (length (payloadData (frs ! i))))"
      by blast
    from j mem cat
    have "j < length (ts_groups r) \<and>
          fst (ts_groupToIndices r ! j) = mg_id (ts_groups r ! j) \<and>
          i \<in> set (snd (ts_groupToIndices r ! j)) \<and>
          mg_sizeCategory (ts_groups r ! j) =
            getSizeCategory (int (length (payloadData (frs ! i))))"
      unfolding gti gs by (simp add: groupOf_def)
    then show "\<exists>j < length (ts_groups r).
          fst (ts_groupToIndices r ! j) = mg_id (ts_groups r ! j) \<and>
          i \<in> set (snd (ts_groupToIndices r ! j)) \<and>
          mg_sizeCategory (ts_groups r ! j) =
            getSizeCategory (int (length (payloadData (frs ! i))))"
      by blast
  qed
next
  show "\<forall>n :: int.
            (n < 32 \<longrightarrow> getSizeCategory n = Tiny) \<and>
            (32 \<le> n \<and> n < 128 \<longrightarrow> getSizeCategory n = Small) \<and>
            (128 \<le> n \<and> n < 512 \<longrightarrow> getSizeCategory n = Medium) \<and>
            (512 \<le> n \<and> n < 2048 \<longrightarrow> getSizeCategory n = Large) \<and>
            (2048 \<le> n \<longrightarrow> getSizeCategory n = XLarge)"
    by (simp add: getSizeCategory_def)
qed

theorem C7_size_bucket_from_string_length_witness:
  "0 < length [ex_binaryFrame] \<and>
   length (payloadData ([ex_binaryFrame] ! 0)) = 32 \<and>
   getSizeCategory 32 = Small \<and>
   ts_groupToIndices (analyzeWebSocketFramesV2 [ex_binaryFrame] 1 ''wss://example'') = [(''A'', [0])] \<and>
   map mg_sizeCategory (ts_groups (analyzeWebSocketFramesV2 [ex_binaryFrame] 1 ''wss://example'')) =
     [Small]"
  using C7_size_bucket_from_string_length [of "[ex_binaryFrame]" 1 "''wss://example''"]
    ex_binaryFrame_analysis
  by (simp add: getSizeCategory_def)


text \<open>
  Claim C8 (group ID sequence). The groups of a summary are in descending order of count
  (the sort is stable), the group of rank \<open>k\<close> has the ID \<open>generateGroupId k\<close>, and
  \<open>generateGroupId\<close> is the bijective base-26 letter code (\<open>generateGroupId_rec\<close>): it
  maps 0 to A, 25 to Z, 26 to AA, 27 to AB, and no two ranks to the same code. So in a
  summary of 27 groups the 27th has the ID AA.
\<close>

theorem C8_group_id_sequence:
  fixes frs :: "webSocketFrame list" and wsid :: int and u :: string
  defines "gs \<equiv> ts_groups (analyzeWebSocketFramesV2 frs wsid u)"
  shows "map mg_id gs = map generateGroupId [0..<length gs] \<and>
         sorted_wrt (\<lambda>a b. mg_count b \<le> mg_count a) gs \<and>
         generateGroupId 0 = ''A'' \<and> generateGroupId 25 = ''Z'' \<and>
         generateGroupId 26 = ''AA'' \<and> generateGroupId 27 = ''AB'' \<and>
         inj generateGroupId \<and>
         (length gs = 27 \<longrightarrow> mg_id (gs ! 26) = ''AA'')"
proof -
  define es where "es = sortByCount (groupFrames [] 0 frs)"
  have gs: "gs = map (\<lambda>(i, e). groupOf i e) (zip [0..<length es] es)"
    unfolding gs_def es_def by (rule analyze_groups)
  have len: "length gs = length es" unfolding gs by simp
  have 1: "map mg_id gs = map generateGroupId [0..<length gs]"
    unfolding len unfolding gs by (rule nth_equalityI) (simp_all add: groupOf_def)
  have "sorted_wrt (\<lambda>a b. length (g_indices (snd b)) \<le> length (g_indices (snd a))) es"
    unfolding es_def by (rule sorted_sortByCount)
  then have 2: "sorted_wrt (\<lambda>a b. mg_count b \<le> mg_count a) gs"
    unfolding gs by (auto simp: sorted_wrt_iff_nth_less groupOf_def)
  have v: "generateGroupId 0 = ''A''" "generateGroupId 25 = ''Z''"
    "generateGroupId 26 = ''AA''" "generateGroupId 27 = ''AB''"
    by (simp_all add: generateGroupId_def generateGroupId_loop.simps char_of_def)
  have 3: "inj generateGroupId"
    by (rule injI) (rule generateGroupId_inj)
  have 4: "mg_id (gs ! 26) = ''AA''" if "length gs = 27"
  proof -
    have "mg_id (gs ! 26) = map mg_id gs ! 26" using that by simp
    also have "\<dots> = generateGroupId 26" unfolding 1 using that by simp
    finally show ?thesis unfolding v .
  qed
  from 1 2 v 3 4 show ?thesis by blast
qed

theorem C8_group_id_sequence_witness:
  "length (ts_groups (analyzeWebSocketFramesV2 ex_frames27 1 ''wss://example'')) = 27 \<and>
   mg_id (ts_groups (analyzeWebSocketFramesV2 ex_frames27 1 ''wss://example'') ! 26) = ''AA''"
  using C8_group_id_sequence [of ex_frames27 1 "''wss://example''"] ex_frames27_analysis
  by simp



text \<open>
  Claim C10 (the index lists partition the frame list). In every summary of \<open>n\<close> frames
  the index lists of \<^verbatim>\<open>groupToIndices\<close> have no index twice, neither within a list nor in
  two lists, and together hold exactly the indices \<open>0, ..., n - 1\<close>; the lists belong to
  the groups in order, ID by ID; the count of a group is the length of its list, and the
  counts sum to \<^verbatim>\<open>totalFrames = n\<close>; every list is strictly increasing; and the sample
  indices of a group are the first \<open>min 3 count\<close> entries of its list.
\<close>

theorem C10_groups_partition_frames:
  fixes frs :: "webSocketFrame list" and wsid :: int and u :: string
  defines "r \<equiv> analyzeWebSocketFramesV2 frs wsid u"
  shows "distinct (concat (map snd (ts_groupToIndices r))) \<and>
         set (concat (map snd (ts_groupToIndices r))) = {0..<length frs} \<and>
         (\<forall>a b. a < b \<and> b < length (ts_groupToIndices r) \<longrightarrow>
            set (snd (ts_groupToIndices r ! a)) \<inter> set (snd (ts_groupToIndices r ! b)) = {}) \<and>
         map fst (ts_groupToIndices r) = map mg_id (ts_groups r) \<and>
         distinct (map mg_id (ts_groups r)) \<and>
         map mg_count (ts_groups r) = map (\<lambda>e. length (snd e)) (ts_groupToIndices r) \<and>
         sum_list (map mg_count (ts_groups r)) = ts_totalFrames r \<and>
         ts_totalFrames r = length frs \<and>
         list_all (\<lambda>e. sorted_wrt (<) (snd e)) (ts_groupToIndices r) \<and>
         map mg_sampleIndices (ts_groups r) =
           map (\<lambda>e. take (min 3 (length (snd e))) (snd e)) (ts_groupToIndices r)"
proof -
  define es where "es = sortByCount (groupFrames [] 0 frs)"
  note E = sorted_entries [OF es_def]
  have gti: "ts_groupToIndices r =
      map (\<lambda>(i, e). (generateGroupId i, g_indices (snd e))) (zip [0..<length es] es)"
    unfolding r_def es_def by (rule analyze_groupToIndices)
  have gs: "ts_groups r = map (\<lambda>(i, e). groupOf i e) (zip [0..<length es] es)"
    unfolding r_def es_def by (rule analyze_groups)
  have idx: "map snd (ts_groupToIndices r) = map (\<lambda>e. g_indices (snd e)) es"
    unfolding gti by (rule nth_equalityI) simp_all
  have ids: "map fst (ts_groupToIndices r) = map generateGroupId [0..<length es]"
    unfolding gti by (rule nth_equalityI) simp_all
  have gids: "map mg_id (ts_groups r) = map generateGroupId [0..<length es]"
    unfolding gs by (rule nth_equalityI) (simp_all add: groupOf_def)
  have cnt: "map mg_count (ts_groups r) = map (\<lambda>e. length (g_indices (snd e))) es"
    unfolding gs by (rule nth_equalityI) (simp_all add: groupOf_def)
  have smp: "map mg_sampleIndices (ts_groups r) = map (\<lambda>e. take 3 (g_indices (snd e))) es"
    unfolding gs by (rule nth_equalityI) (simp_all add: groupOf_def)
  have flt: "map snd (ts_groupToIndices r) =
      map (\<lambda>k. filter (\<lambda>i. frameKey (frs ! i) = k) [0..<length frs]) (map fst es)"
    unfolding idx by (rule index_lists [OF es_def])
  have 1: "distinct (concat (map snd (ts_groupToIndices r)))"
    unfolding flt by (rule distinct_concat_filter [OF E(1)]) simp
  have 2: "set (concat (map snd (ts_groupToIndices r))) = {0..<length frs}"
  proof
    show "set (concat (map snd (ts_groupToIndices r))) \<subseteq> {0..<length frs}"
      unfolding flt by auto
    show "{0..<length frs} \<subseteq> set (concat (map snd (ts_groupToIndices r)))"
    proof
      fix i assume "i \<in> {0..<length frs}"
      then have i: "i < length frs" by simp
      from E(3) [OF i] show "i \<in> set (concat (map snd (ts_groupToIndices r)))"
        unfolding flt using i by auto
    qed
  qed
  have 3: "set (snd (ts_groupToIndices r ! a)) \<inter> set (snd (ts_groupToIndices r ! b)) = {}"
    if "a < b" and "b < length (ts_groupToIndices r)" for a b
    using distinct_concat_disjoint [OF 1 that(1)] that by simp
  have 4: "map fst (ts_groupToIndices r) = map mg_id (ts_groups r)"
    unfolding ids gids ..
  have 5: "distinct (map mg_id (ts_groups r))"
    unfolding gids by (simp add: distinct_map inj_on_def) (metis generateGroupId_inj)
  have 6: "map mg_count (ts_groups r) = map (\<lambda>e. length (snd e)) (ts_groupToIndices r)"
  proof -
    have "map (\<lambda>e. length (snd e)) (ts_groupToIndices r) = map length (map snd (ts_groupToIndices r))"
      by simp
    also have "\<dots> = map (\<lambda>e. length (g_indices (snd e))) es"
      unfolding idx by simp
    finally show ?thesis unfolding cnt ..
  qed
  have 8: "ts_totalFrames r = length frs"
    unfolding r_def by (rule analyze_totalFrames)
  have 7: "sum_list (map mg_count (ts_groups r)) = ts_totalFrames r"
  proof -
    have "sum_list (map mg_count (ts_groups r)) = sum_list (map length (map snd (ts_groupToIndices r)))"
      unfolding 6 by (simp add: comp_def)
    also have "\<dots> = length (concat (map snd (ts_groupToIndices r)))"
      by (simp add: length_concat)
    also have "\<dots> = card (set (concat (map snd (ts_groupToIndices r))))"
      using 1 by (rule distinct_card [symmetric])
    also have "\<dots> = length frs"
      unfolding 2 by simp
    finally show ?thesis unfolding 8 .
  qed
  have 9: "list_all (\<lambda>e. sorted_wrt (<) (snd e)) (ts_groupToIndices r)"
  proof -
    have "list_all (sorted_wrt (<)) (map snd (ts_groupToIndices r))"
      unfolding flt by (simp add: list_all_iff sorted_wrt_filter)
    then show ?thesis by (simp add: list_all_iff)
  qed
  have 10: "map mg_sampleIndices (ts_groups r) =
           map (\<lambda>e. take (min 3 (length (snd e))) (snd e)) (ts_groupToIndices r)"
  proof -
    have "map (\<lambda>e. take (min 3 (length (snd e))) (snd e)) (ts_groupToIndices r) =
          map (\<lambda>l. take 3 l) (map snd (ts_groupToIndices r))"
      by (simp add: min_def)
    also have "\<dots> = map (\<lambda>e. take 3 (g_indices (snd e))) es"
      unfolding idx by simp
    finally show ?thesis unfolding smp ..
  qed
  from 1 2 3 4 5 6 7 8 9 10 show ?thesis by blast
qed


theorem C10_groups_partition_frames_witness:
  "ts_groupToIndices (analyzeWebSocketFramesV2 ex_frames 1 ''wss://example'') =
     [(''A'', [1, 2, 4]), (''B'', [0, 3])] \<and>
   set (concat [[1, 2, 4], [0, 3 :: nat]]) = {0..<length ex_frames} \<and>
   set [1, 2, 4 :: nat] \<inter> set [0, 3] = {} \<and>
   map mg_count (ts_groups (analyzeWebSocketFramesV2 ex_frames 1 ''wss://example'')) = [3, 2] \<and>
   map mg_sampleIndices (ts_groups (analyzeWebSocketFramesV2 ex_frames 1 ''wss://example'')) =
     [[1, 2, 4], [0, 3]]"
  using C10_groups_partition_frames [of ex_frames 1 "''wss://example''"] ex_frames_analysis
  by simp

end
